theory Spec2Isabelle
  imports Complex_Main "HOL-Library.AList" "HOL-Library.Char_ord" "HOL-Library.List_Lexorder"
begin

section \<open>Conventions of the embedding\<close>

text \<open>
  The program is \<^verbatim>\<open>src/app.py\<close>: a pandas pipeline that turns a raw table into an
  hourly series, a feature builder over that series, the PM2.5 to AQI mapping and the
  handler of \<^verbatim>\<open>/api/predict\<close>.

  \<^item> A pandas float cell is a \<open>real option\<close>: \<open>None\<close> is NaN (a missing value), \<open>Some x\<close>
    a number. Arithmetic is exact: rounding errors, infinities and overflow of
    IEEE doubles are outside the model, and an integer column is not told from a float
    column. The rolling standard deviation is a real square root. The properties
    below depend on which cells are missing, not on their values; where the
    program's doubles could overflow to NaN, a property bounds the numbers it
    speaks of (\<open>in_range\<close>), and the mean of a group of one row is that row's value
    in doubles as in the model.
  \<^item> A cell of an object column is a \<open>string option\<close>, \<open>None\<close> being the missing value.
  \<^item> A timestamp is an \<open>int\<close>, the number of nanoseconds since the epoch; a raw timestamp
    that \<^verbatim>\<open>pd.to_datetime(..., errors="coerce")\<close> cannot parse is \<open>None\<close> (NaT).
  \<^item> An exception is a value of \<open>py_error\<close>, and a computation that may raise returns
    \<open>py_error + 'a\<close>.
  \<^item> The Arabic category texts cannot be written in an ASCII theory; each is a
    constructor of \<open>aqi_txt\<close>.
\<close>

datatype py_error =
    AssertionError string  \<comment> \<open>a failed \<^verbatim>\<open>assert\<close> at import time, with its message\<close>
  | IndexError             \<comment> \<open>\<^verbatim>\<open>.iloc\<close> out of bounds\<close>
  | KeyError string        \<comment> \<open>a column that the frame does not have\<close>
  | ValueError             \<comment> \<open>\<^verbatim>\<open>pd.date_range\<close> from NaT\<close>
  | DataError              \<comment> \<open>a rolling aggregate over a column that is not numeric\<close>

section \<open>The AQI mapping\<close>

datatype aqi_txt =
    Txt_good        \<comment> \<open>"jayyid"\<close>
  | Txt_moderate    \<comment> \<open>"mutawassit"\<close>
  | Txt_usg         \<comment> \<open>"unhealthy for sensitive groups"\<close>
  | Txt_unhealthy   \<comment> \<open>"unhealthy"\<close>
  | Txt_very        \<comment> \<open>"very unhealthy"\<close>
  | Txt_hazardous   \<comment> \<open>"khatir"\<close>
  | Txt_unknown     \<comment> \<open>"not known"\<close>

type_synonym break = "real \<times> real \<times> int \<times> int \<times> aqi_txt \<times> string"

definition PM25_BREAKS :: "break list" where
  "PM25_BREAKS =
    [(0.0,   12.0,    0,  50, Txt_good,      ''aqi-good''),
     (12.1,  35.4,   51, 100, Txt_moderate,  ''aqi-moderate''),
     (35.5,  55.4,  101, 150, Txt_usg,       ''aqi-usg''),
     (55.5,  150.4, 151, 200, Txt_unhealthy, ''aqi-unhealthy''),
     (150.5, 250.4, 201, 300, Txt_very,      ''aqi-very''),
     (250.5, 500.4, 301, 500, Txt_hazardous, ''aqi-hazardous'')]"

text \<open>
  Python's \<^verbatim>\<open>round(x)\<close> of a float: to the nearest integer, a tie to the even one. The
  model rounds the exact value of the bucket's line; the program rounds the double it
  has computed, which near a tie can lie on the other side of it (at 5.4 the exact
  value is 22.5, the double is a little above). The properties below use the fallback
  and the bounds of the buckets, where both agree, and the monotonicity of rounding.
\<close>

definition py_round :: "real \<Rightarrow> int" where
  "py_round x =
    (let f = \<lfloor>x\<rfloor>; d = x - of_int f
     in if d < 1 / 2 then f
        else if 1 / 2 < d then f + 1
        else if even f then f else f + 1)"

text \<open>
  The \<^verbatim>\<open>for\<close> loop of \<^verbatim>\<open>pm25_to_aqi\<close> over the table: the first bucket with
  \<^verbatim>\<open>Cl <= ug <= Ch\<close> returns; when the table is exhausted the function returns
  \<^verbatim>\<open>500\<close> with the hazardous category.
\<close>

fun scan_breaks :: "break list \<Rightarrow> real \<Rightarrow> int option \<times> aqi_txt \<times> string" where
  "scan_breaks [] ug = (Some 500, Txt_hazardous, ''aqi-hazardous'')"
| "scan_breaks ((Cl, Ch, Il, Ih, txt, cls) # bs) ug =
    (if Cl \<le> ug \<and> ug \<le> Ch
     then (Some (py_round (of_int (Ih - Il) / (Ch - Cl) * (ug - Cl) + of_int Il)), txt, cls)
     else scan_breaks bs ug)"

definition pm25_to_aqi :: "real option \<Rightarrow> int option \<times> aqi_txt \<times> string" where
  "pm25_to_aqi ug =
    (case ug of
       None \<Rightarrow> (None, Txt_unknown, ''aqi-unknown'')
     | Some v \<Rightarrow> scan_breaks PM25_BREAKS v)"

section \<open>Detection of the time column\<close>

text \<open>
  \<^verbatim>\<open>c.lower()\<close> on a column name. Names are byte strings here; the letters \<open>A\<close> to \<open>Z\<close>
  are mapped to \<open>a\<close> to \<open>z\<close> and every other byte is left as it is.
\<close>

definition lower_char :: "char \<Rightarrow> char" where
  "lower_char c =
    (case map_of (zip ''ABCDEFGHIJKLMNOPQRSTUVWXYZ'' ''abcdefghijklmnopqrstuvwxyz'') c of
       None \<Rightarrow> c
     | Some l \<Rightarrow> l)"

definition lower :: "string \<Rightarrow> string" where
  "lower s = map lower_char s"

definition time_names :: "string list" where
  "time_names = [''timestamp'', ''datetime'', ''date'', ''time'']"

definition time_col_candidates :: "string list \<Rightarrow> string list" where
  "time_col_candidates columns = filter (\<lambda>c. lower c \<in> set time_names) columns"

text \<open>Lines 21 to 23: the assertion, then the first candidate.\<close>

definition TIME_COL :: "string list \<Rightarrow> py_error + string" where
  "TIME_COL columns =
    (case time_col_candidates columns of
       [] \<Rightarrow> Inl (AssertionError
               ''No datetime column found. Rename your time column or add it.'')
     | c # _ \<Rightarrow> Inr c)"

section \<open>Frames\<close>

text \<open>
  A column is numeric (\<^verbatim>\<open>select_dtypes(include=[np.number])\<close> selects it) or not; which
  one it is was decided by \<^verbatim>\<open>pd.read_csv\<close> and is part of the input. A frame is an index
  of timestamps and an ordered list of named columns.
\<close>

datatype column = NumCol "real option list" | ObjCol "string option list"

datatype cell = Num_cell "real option" | Obj_cell "string option"

type_synonym columns = "(string \<times> column) list"

record frame =
  index :: "int list"
  cols :: columns

text \<open>
  The raw table once line 26 has parsed the time column: \<open>stamps\<close> is that column
  (\<open>None\<close> where the text did not parse), \<open>rcols\<close> are the other columns.
\<close>

record raw_frame =
  stamps :: "int option list"
  rcols :: columns

fun is_num :: "column \<Rightarrow> bool" where
  "is_num (NumCol xs) = True"
| "is_num (ObjCol xs) = False"

fun col_len :: "column \<Rightarrow> nat" where
  "col_len (NumCol xs) = length xs"
| "col_len (ObjCol xs) = length xs"

fun cell_at :: "column \<Rightarrow> nat \<Rightarrow> cell" where
  "cell_at (NumCol xs) i = Num_cell (xs ! i)"
| "cell_at (ObjCol xs) i = Obj_cell (xs ! i)"

fun cell_ok :: "column \<Rightarrow> nat \<Rightarrow> bool" where
  "cell_ok (NumCol xs) i = (xs ! i \<noteq> None)"
| "cell_ok (ObjCol xs) i = (xs ! i \<noteq> None)"

text \<open>The rows of a column at the positions \<open>ps\<close>, in that order.\<close>

fun take_rows :: "nat list \<Rightarrow> column \<Rightarrow> column" where
  "take_rows ps (NumCol xs) = NumCol (map ((!) xs) ps)"
| "take_rows ps (ObjCol xs) = ObjCol (map ((!) xs) ps)"

text \<open>\<^verbatim>\<open>f[name] = col\<close>: replaces the column of that name where it stands, or appends it.\<close>

definition set_col :: "frame \<Rightarrow> string \<Rightarrow> column \<Rightarrow> frame" where
  "set_col f name col = f\<lparr>cols := AList.update name col (cols f)\<rparr>"

fun valid_values :: "'a option list \<Rightarrow> 'a list" where
  "valid_values [] = []"
| "valid_values (None # xs) = valid_values xs"
| "valid_values (Some v # xs) = v # valid_values xs"

section \<open>The normalisation pipeline (lines 26 to 52)\<close>

definition hour_ns :: int where
  "hour_ns = 3600000000000"

definition floor_h :: "int \<Rightarrow> int" where
  "floor_h t = t div hour_ns * hour_ns"

text \<open>
  Lines 26 to 28: the rows whose timestamp parsed, sorted by timestamp, each timestamp
  floored to its hour. The sort is the stable one; pandas' default makes no promise on
  the order of rows with equal timestamps.
\<close>

fun parsed_rows :: "nat \<Rightarrow> int option list \<Rightarrow> (int \<times> nat) list" where
  "parsed_rows i [] = []"
| "parsed_rows i (None # ts) = parsed_rows (Suc i) ts"
| "parsed_rows i (Some t # ts) = (t, i) # parsed_rows (Suc i) ts"

definition sort_floor :: "raw_frame \<Rightarrow> frame" where
  "sort_floor df =
    (let rows = sort_key fst (parsed_rows 0 (stamps df))
     in \<lparr>index = map (floor_h \<circ> fst) rows,
         cols = map (\<lambda>(c, col). (c, take_rows (map snd rows) col)) (rcols df)\<rparr>)"

text \<open>
  Line 36: one row per hour, hours ascending. The aggregation dictionary lists the
  numeric columns first (\<^verbatim>\<open>mean\<close>, which skips NaN) and then the others (\<^verbatim>\<open>last\<close>,
  the last value of the group that is not missing). With no column besides the time
  column the dictionary is empty and \<^verbatim>\<open>agg\<close> raises.
\<close>

definition group_cells :: "int list \<Rightarrow> 'a list \<Rightarrow> int \<Rightarrow> 'a list" where
  "group_cells ts xs k = map snd (filter (\<lambda>p. fst p = k) (zip ts xs))"

definition mean :: "real list \<Rightarrow> real" where
  "mean vs = sum_list vs / real (length vs)"

definition agg_mean :: "real option list \<Rightarrow> real option" where
  "agg_mean g = (let vs = valid_values g in if vs = [] then None else Some (mean vs))"

definition agg_last :: "string option list \<Rightarrow> string option" where
  "agg_last g = (let vs = valid_values g in if vs = [] then None else Some (last vs))"

fun agg :: "int list \<Rightarrow> int list \<Rightarrow> column \<Rightarrow> column" where
  "agg keys ts (NumCol xs) = NumCol (map (\<lambda>k. agg_mean (group_cells ts xs k)) keys)"
| "agg keys ts (ObjCol xs) = ObjCol (map (\<lambda>k. agg_last (group_cells ts xs k)) keys)"

definition groupby_agg :: "frame \<Rightarrow> py_error + frame" where
  "groupby_agg df =
    (let num_cols = filter (\<lambda>(c, col). is_num col) (cols df);
         other_cols = filter (\<lambda>(c, col). \<not> is_num col) (cols df);
         keys = sort (remdups (index df))
     in if num_cols @ other_cols = [] then Inl ValueError
        else Inr \<lparr>index = keys,
               cols = map (\<lambda>(c, col). (c, agg keys (index df) col)) (num_cols @ other_cols)\<rparr>)"

text \<open>
  Lines 37 and 38: \<^verbatim>\<open>pd.date_range(lo, hi, freq="h")\<close> and the reindexing on it. An
  hour that the grouped frame does not have gets a row of missing values. With no row
  at all the minimum is NaT and \<^verbatim>\<open>date_range\<close> raises.
\<close>

definition date_range :: "int \<Rightarrow> int \<Rightarrow> int list" where
  "date_range lo hi = map (\<lambda>k. lo + int k * hour_ns) [0..<nat ((hi - lo) div hour_ns + 1)]"

definition reindex_cells :: "int list \<Rightarrow> 'a option list \<Rightarrow> int list \<Rightarrow> 'a option list" where
  "reindex_cells keys xs full_idx =
    map (\<lambda>t. case map_of (zip keys xs) t of None \<Rightarrow> None | Some v \<Rightarrow> v) full_idx"

fun reindex_col :: "int list \<Rightarrow> int list \<Rightarrow> column \<Rightarrow> column" where
  "reindex_col keys full_idx (NumCol xs) = NumCol (reindex_cells keys xs full_idx)"
| "reindex_col keys full_idx (ObjCol xs) = ObjCol (reindex_cells keys xs full_idx)"

definition reindex_hourly :: "frame \<Rightarrow> py_error + frame" where
  "reindex_hourly dfh =
    (if index dfh = [] then Inl ValueError
     else let full_idx = date_range (hd (index dfh)) (last (index dfh))
          in Inr \<lparr>index = full_idx,
                  cols = map (\<lambda>(c, col). (c, reindex_col (index dfh) full_idx col)) (cols dfh)\<rparr>)"

text \<open>
  Lines 42 to 46. \<^verbatim>\<open>interpolate(method="time", limit_direction="both")\<close> leaves a column
  with no valid cell as it is; otherwise every missing cell gets \<^verbatim>\<open>np.interp\<close> of its
  timestamp over the valid points: the value of the first point to its left or at it,
  of the last point to its right, and the linear interpolation in time between two
  neighbouring points.
\<close>

fun valid_points :: "int list \<Rightarrow> real option list \<Rightarrow> (int \<times> real) list" where
  "valid_points (t # ts) (Some v # xs) = (t, v) # valid_points ts xs"
| "valid_points (t # ts) (None # xs) = valid_points ts xs"
| "valid_points ts xs = []"

fun np_interp :: "(int \<times> real) list \<Rightarrow> int \<Rightarrow> real option" where
  "np_interp [] x = None"
| "np_interp [(t0, v0)] x = Some v0"
| "np_interp ((t0, v0) # (t1, v1) # ps) x =
    (if x \<le> t0 then Some v0
     else if x < t1 then Some ((v1 - v0) / of_int (t1 - t0) * of_int (x - t0) + v0)
     else np_interp ((t1, v1) # ps) x)"

definition interpolate :: "int list \<Rightarrow> real option list \<Rightarrow> real option list" where
  "interpolate idx xs =
    (let pts = valid_points idx xs
     in if pts = [] then xs
        else map (\<lambda>(t, x). case x of Some v \<Rightarrow> Some v | None \<Rightarrow> np_interp pts t) (zip idx xs))"

fun ffill_from :: "'a option \<Rightarrow> 'a option list \<Rightarrow> 'a option list" where
  "ffill_from prev [] = []"
| "ffill_from prev (None # xs) = prev # ffill_from prev xs"
| "ffill_from prev (Some v # xs) = Some v # ffill_from (Some v) xs"

definition ffill :: "'a option list \<Rightarrow> 'a option list" where
  "ffill xs = ffill_from None xs"

definition bfill :: "'a option list \<Rightarrow> 'a option list" where
  "bfill xs = rev (ffill (rev xs))"

text \<open>
  Lines 47 to 50: a column that is not numeric and has a missing cell is filled with
  its mode, the least of its most frequent values, or with \<^verbatim>\<open>"unknown"\<close> when it has
  no value at all.
\<close>

definition mode_val :: "string option list \<Rightarrow> string" where
  "mode_val xs =
    (let vs = valid_values xs
     in if vs = [] then ''unknown''
        else let m = Max (set (map (count_list vs) vs))
             in hd (sort (filter (\<lambda>v. count_list vs v = m) (remdups vs))))"

fun fill_col :: "int list \<Rightarrow> column \<Rightarrow> column" where
  "fill_col idx (NumCol xs) = NumCol (bfill (ffill (interpolate idx xs)))"
| "fill_col idx (ObjCol xs) =
    (if None \<in> set xs
     then ObjCol (map (\<lambda>x. case x of None \<Rightarrow> Some (mode_val xs) | Some v \<Rightarrow> Some v) xs)
     else ObjCol xs)"

definition gap_fill :: "frame \<Rightarrow> frame" where
  "gap_fill dfh = dfh\<lparr>cols := map (\<lambda>(c, col). (c, fill_col (index dfh) col)) (cols dfh)\<rparr>"

text \<open>
  Line 52, and the whole pipeline. The message of the assertion is abridged: the
  program's also lists the columns of the frame.
\<close>

definition assert_target :: "string \<Rightarrow> frame \<Rightarrow> py_error + frame" where
  "assert_target target dfh =
    (if target \<in> fst ` set (cols dfh) then Inr dfh
     else Inl (AssertionError (''Target '' @ target @ '' not found.'')))"

definition normalize_frame :: "string \<Rightarrow> raw_frame \<Rightarrow> py_error + frame" where
  "normalize_frame target df =
    (case groupby_agg (sort_floor df) of
       Inl e \<Rightarrow> Inl e
     | Inr grouped \<Rightarrow>
         (case reindex_hourly grouped of
            Inl e \<Rightarrow> Inl e
          | Inr dfh \<Rightarrow> assert_target target (gap_fill dfh)))"

text \<open>
  A frame is well formed when every column has one cell per row and no two columns
  share a name, as in every frame that \<^verbatim>\<open>pd.read_csv\<close> and the pipeline produce.
\<close>

definition wf_frame :: "frame \<Rightarrow> bool" where
  "wf_frame f \<longleftrightarrow>
    list_all (\<lambda>(c, col). col_len col = length (index f)) (cols f) \<and>
    distinct (map fst (cols f))"


section \<open>The feature builder (lines 55 to 78)\<close>

text \<open>
  The calendar fields of a timestamp: the hour of the day, the day of the week with
  Monday as 0 (1 January 1970 was a Thursday) and the month of the proleptic Gregorian
  calendar.
\<close>

definition hour_of :: "int \<Rightarrow> int" where
  "hour_of t = (t div hour_ns) mod 24"

definition days_of :: "int \<Rightarrow> int" where
  "days_of t = t div (24 * hour_ns)"

definition dayofweek_of :: "int \<Rightarrow> int" where
  "dayofweek_of t = (days_of t + 3) mod 7"

definition month_of :: "int \<Rightarrow> int" where
  "month_of t =
    (let z = days_of t + 719468;
         doe = z mod 146097;
         yoe = (doe - doe div 1460 + doe div 36524 - doe div 146096) div 365;
         doy = doe - (365 * yoe + yoe div 4 - yoe div 100);
         mp = (5 * doy + 2) div 153
     in if mp < 10 then mp + 3 else mp - 9)"

definition int_col :: "(int \<Rightarrow> int) \<Rightarrow> int list \<Rightarrow> column" where
  "int_col g idx = NumCol (map (\<lambda>t. Some (of_int (g t))) idx)"

text \<open>
  \<^verbatim>\<open>is_weekend\<close> is read off the column \<^verbatim>\<open>dayofweek\<close> that the line before has just
  written from the same index.
\<close>

definition add_time_features :: "frame \<Rightarrow> frame" where
  "add_time_features frame =
    (let f = set_col frame ''hour'' (int_col hour_of (index frame));
         f = set_col f ''dayofweek'' (int_col dayofweek_of (index frame));
         f = set_col f ''month'' (int_col month_of (index frame))
     in set_col f ''is_weekend''
          (int_col (\<lambda>t. if 5 \<le> dayofweek_of t then 1 else 0) (index frame)))"

text \<open>The decimal digits of a number, for the \<^verbatim>\<open>f"{target}_lag{L}"\<close> column names.\<close>

fun str_nat :: "nat \<Rightarrow> string" where
  "str_nat n =
    (if n < 10 then [''0123456789'' ! n] else str_nat (n div 10) @ [''0123456789'' ! (n mod 10)])"

declare str_nat.simps [simp del]

text \<open>\<^verbatim>\<open>Series.shift(L)\<close>: every value moves \<open>L\<close> rows down, the first \<open>L\<close> rows are missing.\<close>

definition shift_cells :: "nat \<Rightarrow> 'a option list \<Rightarrow> 'a option list" where
  "shift_cells L xs = replicate (min L (length xs)) None @ take (length xs - L) xs"

fun shift :: "nat \<Rightarrow> column \<Rightarrow> column" where
  "shift L (NumCol xs) = NumCol (shift_cells L xs)"
| "shift L (ObjCol xs) = ObjCol (shift_cells L xs)"

text \<open>
  \<^verbatim>\<open>rolling(w, min_periods=m)\<close>: the window of row \<open>i\<close> is the rows \<open>i - w + 1\<close> to \<open>i\<close> that
  exist. The mean is over the valid cells of the window and needs \<open>m\<close> of them; the
  sample standard deviation needs \<open>m\<close> of them and more than one.
\<close>

definition window :: "nat \<Rightarrow> 'a list \<Rightarrow> nat \<Rightarrow> 'a list" where
  "window w xs i = drop (Suc i - w) (take (Suc i) xs)"

definition rolling_mean :: "nat \<Rightarrow> nat \<Rightarrow> real option list \<Rightarrow> real option list" where
  "rolling_mean w m xs =
    map (\<lambda>i. let vs = valid_values (window w xs i)
             in if m \<le> length vs \<and> 0 < length vs then Some (mean vs) else None)
        [0..<length xs]"

definition sample_std :: "real list \<Rightarrow> real" where
  "sample_std vs =
    sqrt (sum_list (map (\<lambda>v. (v - mean vs)\<^sup>2) vs) / real (length vs - 1))"

definition rolling_std :: "nat \<Rightarrow> nat \<Rightarrow> real option list \<Rightarrow> real option list" where
  "rolling_std w m xs =
    map (\<lambda>i. let vs = valid_values (window w xs i)
             in if m \<le> length vs \<and> 1 < length vs then Some (sample_std vs) else None)
        [0..<length xs]"

text \<open>The loops of \<^verbatim>\<open>add_lags_rolls\<close>; an exception ends them.\<close>

fun for_each :: "('a \<Rightarrow> 's \<Rightarrow> py_error + 's) \<Rightarrow> 'a list \<Rightarrow> 's \<Rightarrow> py_error + 's" where
  "for_each body [] s = Inr s"
| "for_each body (x # xs) s =
    (case body x s of Inl e \<Rightarrow> Inl e | Inr s' \<Rightarrow> for_each body xs s')"

definition lag_step :: "string \<Rightarrow> nat \<Rightarrow> frame \<Rightarrow> py_error + frame" where
  "lag_step target L f =
    (case map_of (cols f) target of
       None \<Rightarrow> Inl (KeyError target)
     | Some col \<Rightarrow> Inr (set_col f (target @ ''_lag'' @ str_nat L) (shift L col)))"

definition rolling_of ::
  "(nat \<Rightarrow> nat \<Rightarrow> real option list \<Rightarrow> real option list) \<Rightarrow> string \<Rightarrow>
   string \<Rightarrow> nat \<Rightarrow> frame \<Rightarrow> py_error + frame" where
  "rolling_of stat suffix target w f =
    (case map_of (cols f) target of
       None \<Rightarrow> Inl (KeyError target)
     | Some col \<Rightarrow>
         let m = max 1 (w div 2)
         in if w < m then Inl ValueError
            else (case col of
                    ObjCol xs \<Rightarrow> Inl DataError
                  | NumCol xs \<Rightarrow>
                      Inr (set_col f (target @ suffix @ str_nat w) (NumCol (stat w m xs)))))"

definition roll_step :: "string \<Rightarrow> nat \<Rightarrow> frame \<Rightarrow> py_error + frame" where
  "roll_step target w f =
    (case rolling_of rolling_mean ''_rollmean'' target w f of
       Inl e \<Rightarrow> Inl e
     | Inr f' \<Rightarrow> rolling_of rolling_std ''_rollstd'' target w f')"

definition add_lags_rolls :: "frame \<Rightarrow> string \<Rightarrow> nat list \<Rightarrow> nat list \<Rightarrow> py_error + frame" where
  "add_lags_rolls frame target lags rolls =
    (case for_each (lag_step target) lags frame of
       Inl e \<Rightarrow> Inl e
     | Inr f \<Rightarrow> for_each (roll_step target) rolls f)"

definition default_lags :: "nat list" where
  "default_lags = [1, 2, 3, 6, 12, 24]"

definition default_rolls :: "nat list" where
  "default_rolls = [3, 6, 12, 24]"

text \<open>\<^verbatim>\<open>dropna()\<close>: the rows in which no column has a missing cell.\<close>

definition complete_row :: "columns \<Rightarrow> nat \<Rightarrow> bool" where
  "complete_row cs i = list_all (\<lambda>(c, col). cell_ok col i) cs"

definition dropna :: "frame \<Rightarrow> frame" where
  "dropna f =
    (let keep = filter (complete_row (cols f)) [0..<length (index f)]
     in \<lparr>index = map ((!) (index f)) keep,
         cols = map (\<lambda>(c, col). (c, take_rows keep col)) (cols f)\<rparr>)"

definition build_feature_view :: "string \<Rightarrow> frame \<Rightarrow> py_error + frame \<times> string list" where
  "build_feature_view target history_df =
    (case add_lags_rolls (add_time_features history_df) target default_lags default_rolls of
       Inl e \<Rightarrow> Inl e
     | Inr Xy0 \<Rightarrow>
         let Xy = dropna Xy0
         in Inr (Xy, filter (\<lambda>c. c \<noteq> target) (map fst (cols Xy))))"

section \<open>The prediction handler (lines 122 to 135)\<close>

text \<open>
  The regression model is a parameter: a function from the last feature row, a list of
  named cells, to the predicted concentration (\<open>None\<close> for NaN).
\<close>

type_synonym model = "(string \<times> cell) list \<Rightarrow> real option"

record prediction =
  next_hour_prediction_ugm3 :: "real option"
  next_hour_prediction_aqi :: "int option"
  aqi_category_text :: aqi_txt
  aqi_category_class :: string
  last_timestamp :: int

text \<open>\<^verbatim>\<open>Xy[feats]\<close>: the columns named in \<open>feats\<close>, in that order.\<close>

fun select_cols :: "columns \<Rightarrow> string list \<Rightarrow> py_error + columns" where
  "select_cols cs [] = Inr []"
| "select_cols cs (c # feats) =
    (case map_of cs c of
       None \<Rightarrow> Inl (KeyError c)
     | Some col \<Rightarrow>
         (case select_cols cs feats of Inl e \<Rightarrow> Inl e | Inr sel \<Rightarrow> Inr ((c, col) # sel)))"

text \<open>
  \<^verbatim>\<open>round(y, 3)\<close>, to the nearest thousandth of the exact value (the program rounds the
  double, with the same caveat as for \<open>py_round\<close>); no property below depends on it.
\<close>

definition py_round3 :: "real \<Rightarrow> real" where
  "py_round3 y = of_int (py_round (y * 1000)) / 1000"

text \<open>
  \<^verbatim>\<open>.iloc[[-1]]\<close> raises \<^verbatim>\<open>IndexError\<close> on a frame with no row; nothing in the handler
  catches it.
\<close>

definition api_predict :: "model \<Rightarrow> string \<Rightarrow> frame \<Rightarrow> py_error + prediction" where
  "api_predict model target dfh =
    (case build_feature_view target dfh of
       Inl e \<Rightarrow> Inl e
     | Inr (Xy_tmp, feats) \<Rightarrow>
         (case select_cols (cols Xy_tmp) feats of
            Inl e \<Rightarrow> Inl e
          | Inr X \<Rightarrow>
              if index Xy_tmp = [] then Inl IndexError
              else
                let n = length (index Xy_tmp);
                    X_latest = map (\<lambda>(c, col). (c, cell_at col (n - 1))) X;
                    y_hat_ug = model X_latest;
                    (aqi_val, aqi_txt, aqi_cls) = pm25_to_aqi y_hat_ug
                in Inr \<lparr>next_hour_prediction_ugm3 = map_option py_round3 y_hat_ug,
                        next_hour_prediction_aqi = aqi_val,
                        aqi_category_text = aqi_txt,
                        aqi_category_class = aqi_cls,
                        last_timestamp = Max (set (index dfh))\<rparr>))"


section \<open>Hourly series\<close>

text \<open>
  An index is contiguous when each timestamp is one hour after the one before it.
\<close>

fun contiguous :: "int list \<Rightarrow> bool" where
  "contiguous (a # b # ts) = (b = a + hour_ns \<and> contiguous (b # ts))"
| "contiguous ts = True"

section \<open>The pipeline, column by column\<close>

text \<open>
  The pieces of \<open>normalize_frame\<close> named: the positions of the parsed rows in sorted order,
  their floored timestamps, the group keys, the hourly index, and what the pipeline
  makes of one column. \<open>num_first\<close> is the order of the aggregation dictionary of
  line 33 and 34, numeric columns before the others.
\<close>

definition num_first :: "columns \<Rightarrow> columns" where
  "num_first cs = filter (\<lambda>(c, col). is_num col) cs @ filter (\<lambda>(c, col). \<not> is_num col) cs"

definition norm_order :: "raw_frame \<Rightarrow> nat list" where
  "norm_order df = map snd (sort_key fst (parsed_rows 0 (stamps df)))"

definition norm_ts :: "raw_frame \<Rightarrow> int list" where
  "norm_ts df = map (floor_h \<circ> fst) (sort_key fst (parsed_rows 0 (stamps df)))"

definition norm_keys :: "raw_frame \<Rightarrow> int list" where
  "norm_keys df = sort (remdups (norm_ts df))"

definition norm_idx :: "raw_frame \<Rightarrow> int list" where
  "norm_idx df = date_range (hd (norm_keys df)) (last (norm_keys df))"

definition norm_col :: "raw_frame \<Rightarrow> column \<Rightarrow> column" where
  "norm_col df col =
    fill_col (norm_idx df)
      (reindex_col (norm_keys df) (norm_idx df)
        (agg (norm_keys df) (norm_ts df) (take_rows (norm_order df) col)))"

section \<open>Example inputs\<close>

text \<open>
  A raw table of five rows: one timestamp does not parse, two rows fall in the same
  hour, the hours 1, 3 and 4 have no row, and each column has missing cells.
\<close>

definition raw_example :: raw_frame where
  "raw_example =
    \<lparr>stamps = [Some (5 * hour_ns + 7), None, Some 3, Some (5 * hour_ns), Some (2 * hour_ns)],
     rcols = [(''station'', ObjCol [Some ''a'', Some ''b'', None, Some ''c'', None]),
              (''PM2.5'', NumCol [Some 1, Some 100, Some 4, Some 2, None])]\<rparr>"

definition hourly_example :: frame where
  "hourly_example =
    \<lparr>index = [0, hour_ns, 2 * hour_ns, 3 * hour_ns, 4 * hour_ns, 5 * hour_ns],
     cols = [(''PM2.5'', NumCol [Some 4, Some 3.5, Some 3, Some 2.5, Some 2, Some 1.5]),
             (''station'', ObjCol [Some ''a'', Some ''a'', Some ''a'', Some ''a'', Some ''a'',
                Some ''a''])]\<rparr>"

section \<open>Predicates on columns\<close>

text \<open>
  \<open>num_complete\<close>: a numeric column with no missing cell (any other column passes).
  \<open>col_has_value\<close>: a numeric column with some cell that is not missing.
  \<open>col_observed\<close>: a numeric column with some cell that is not missing in a row whose
  timestamp parsed. \<open>col_complete\<close>: a column of either kind with no missing cell.
\<close>

fun num_complete :: "column \<Rightarrow> bool" where
  "num_complete (NumCol xs) = (None \<notin> set xs)"
| "num_complete (ObjCol xs) = True"

fun col_has_value :: "column \<Rightarrow> bool" where
  "col_has_value (NumCol xs) = list_ex (\<lambda>x. x \<noteq> None) xs"
| "col_has_value (ObjCol xs) = True"

fun col_observed :: "int option list \<Rightarrow> column \<Rightarrow> bool" where
  "col_observed ts (NumCol xs) = list_ex (\<lambda>(t, x). t \<noteq> None \<and> x \<noteq> None) (zip ts xs)"
| "col_observed ts (ObjCol xs) = True"

fun col_complete :: "column \<Rightarrow> bool" where
  "col_complete (NumCol xs) = (None \<notin> set xs)"
| "col_complete (ObjCol xs) = (None \<notin> set xs)"

text \<open>
  The program's numbers are IEEE doubles, and a sum or a square that overflows can
  turn values that are not missing into NaN. \<open>in_range\<close> holds of a missing cell and
  of a number of magnitude at most \<open>10 ^ 100\<close>: the sums, differences and squares of
  the means, interpolations and rolling statistics over such numbers stay finite in
  doubles, so that there the program's result is missing exactly when the exact
  result of the model is.
\<close>

definition fl_bound :: real where
  "fl_bound = 10 ^ 100"

definition in_range :: "real option \<Rightarrow> bool" where
  "in_range x = (case x of None \<Rightarrow> True | Some v \<Rightarrow> \<bar>v\<bar> \<le> fl_bound)"

fun col_in_range :: "column \<Rightarrow> bool" where
  "col_in_range (NumCol xs) = list_all in_range xs"
| "col_in_range (ObjCol xs) = True"

text \<open>\<open>all_cols P cs\<close>: every column of \<open>cs\<close> satisfies \<open>P\<close>.\<close>

definition all_cols :: "(column \<Rightarrow> bool) \<Rightarrow> columns \<Rightarrow> bool" where
  "all_cols P cs = list_all (\<lambda>(c, col). P col) cs"

text \<open>A raw table in which the only value of the numeric column is in a row that is dropped.\<close>

definition raw_dropped :: raw_frame where
  "raw_dropped = \<lparr>stamps = [None, Some 0], rcols = [(''PM2.5'', NumCol [Some 5, None])]\<rparr>"

section \<open>An hourly series as input\<close>

text \<open>
  \<open>as_raw h\<close> is the hourly series \<open>h\<close> handed to the pipeline as its input table: the
  index is the parsed time column, the columns are the columns of \<open>h\<close> with their
  dtypes.
\<close>

definition as_raw :: "frame \<Rightarrow> raw_frame" where
  "as_raw h = \<lparr>stamps = map Some (index h), rcols = cols h\<rparr>"

section \<open>The feature columns, named\<close>

text \<open>
  The columns that the two loops of \<^verbatim>\<open>add_lags_rolls\<close> write when the target column is
  the numeric column \<open>xs\<close>, in the order in which they are written, and the assignment
  of a list of columns one after the other.
\<close>

definition lag_cols :: "string \<Rightarrow> real option list \<Rightarrow> nat list \<Rightarrow> columns" where
  "lag_cols target xs lags =
    map (\<lambda>L. (target @ ''_lag'' @ str_nat L, NumCol (shift_cells L xs))) lags"

definition roll_cols :: "string \<Rightarrow> real option list \<Rightarrow> nat list \<Rightarrow> columns" where
  "roll_cols target xs rolls =
    concat (map (\<lambda>w.
      [(target @ ''_rollmean'' @ str_nat w, NumCol (rolling_mean w (max 1 (w div 2)) xs)),
       (target @ ''_rollstd'' @ str_nat w, NumCol (rolling_std w (max 1 (w div 2)) xs))]) rolls)"

definition set_cols :: "columns \<Rightarrow> columns \<Rightarrow> columns" where
  "set_cols kvs cs = fold (\<lambda>(k, v). AList.update k v) kvs cs"

definition time_cols :: "int list \<Rightarrow> columns" where
  "time_cols idx =
    [(''hour'', int_col hour_of idx),
     (''dayofweek'', int_col dayofweek_of idx),
     (''month'', int_col month_of idx),
     (''is_weekend'', int_col (\<lambda>t. if 5 \<le> dayofweek_of t then 1 else 0) idx)]"

section \<open>Feature rows and example series\<close>

text \<open>
  \<open>feature_rows\<close> is the index of the frame that \<^verbatim>\<open>build_feature_view\<close> returns: the
  timestamps of the rows that \<^verbatim>\<open>dropna()\<close> keeps. \<open>ok_from k n\<close> holds of a column of
  \<open>n\<close> cells none of which is missing from row \<open>k\<close> on.
\<close>

definition feature_rows :: "string \<Rightarrow> frame \<Rightarrow> py_error + int list" where
  "feature_rows target h =
    (case build_feature_view target h of Inl e \<Rightarrow> Inl e | Inr (Xy, feats) \<Rightarrow> Inr (index Xy))"

definition ok_from :: "nat \<Rightarrow> nat \<Rightarrow> column \<Rightarrow> bool" where
  "ok_from k n col \<longleftrightarrow> col_len col = n \<and> (\<forall>i. k \<le> i \<and> i < n \<longrightarrow> cell_ok col i)"

text \<open>
  An hourly series of \<open>n\<close> rows from the epoch on with the target values 100, 101, ...;
  the same with a second numeric column that has no value at all; and a model that
  predicts the same concentration whatever the features.
\<close>

definition target_values :: "nat \<Rightarrow> real option list" where
  "target_values n = map (\<lambda>k. Some (100 + real k)) [0..<n]"

definition series :: "nat \<Rightarrow> frame" where
  "series n =
    \<lparr>index = map (\<lambda>k. int k * hour_ns) [0..<n],
     cols = [(''PM2.5'', NumCol (target_values n))]\<rparr>"

definition series_no2 :: "nat \<Rightarrow> frame" where
  "series_no2 n =
    \<lparr>index = map (\<lambda>k. int k * hour_ns) [0..<n],
     cols = [(''PM2.5'', NumCol (target_values n)), (''NO2'', NumCol (replicate n None))]\<rparr>"

definition const_model :: "real \<Rightarrow> model" where
  "const_model y X = Some y"

text \<open>
  The frame on which \<^verbatim>\<open>build_feature_view\<close> calls \<^verbatim>\<open>dropna()\<close>, when the target column
  is the numeric column \<open>xs\<close> once the calendar columns are written.
\<close>

definition feat_cols :: "string \<Rightarrow> real option list \<Rightarrow> columns" where
  "feat_cols target xs = lag_cols target xs default_lags @ roll_cols target xs default_rolls"

definition before_dropna :: "string \<Rightarrow> real option list \<Rightarrow> frame \<Rightarrow> frame" where
  "before_dropna target xs h =
    h\<lparr>cols := set_cols (feat_cols target xs) (set_cols (time_cols (index h)) (cols h))\<rparr>"

section \<open>Buckets of a breakpoint table\<close>

text \<open>
  \<open>matched bs ug\<close>: some bucket of the table contains \<open>ug\<close>. \<open>ascending bs\<close>: each bucket
  has its bounds in order and lies, in concentration and in index, below the buckets
  after it. \<open>score\<close> is the first component of the result of the scan.
\<close>

fun matched :: "break list \<Rightarrow> real \<Rightarrow> bool" where
  "matched [] ug = False"
| "matched ((Cl, Ch, Il, Ih, txt, cls) # bs) ug = ((Cl \<le> ug \<and> ug \<le> Ch) \<or> matched bs ug)"

fun below :: "real \<Rightarrow> int \<Rightarrow> break list \<Rightarrow> bool" where
  "below c i [] = True"
| "below c i ((Cl, Ch, Il, Ih, txt, cls) # bs) = (c < Cl \<and> i \<le> Il \<and> below c i bs)"

fun ascending :: "break list \<Rightarrow> bool" where
  "ascending [] = True"
| "ascending ((Cl, Ch, Il, Ih, txt, cls) # bs) =
    (Cl < Ch \<and> Il \<le> Ih \<and> below Ch Ih bs \<and> ascending bs)"

definition score :: "break list \<Rightarrow> real \<Rightarrow> int" where
  "score bs ug = (case fst (scan_breaks bs ug) of None \<Rightarrow> 0 | Some s \<Rightarrow> s)"

section \<open>Properties of the AQI mapping\<close>

lemma py_round_of_int: "py_round (of_int n) = n"
  by (simp add: py_round_def)

text \<open>
  C2 (the code departs from the claim): the table does not cover \<open>[0, 500.4]\<close>. The
  concentration \<open>12.05\<close> lies in that range, strictly between the upper bound \<open>12.0\<close> of
  the first bucket and the lower bound \<open>12.1\<close> of the second, matches no bucket, and is
  mapped by the fallback to score 500, hazardous.
\<close>

theorem pm25_to_aqi_gap_12_05:
  "(0::real) \<le> 12.05 \<and> (12.05::real) \<le> 500.4 \<and>
   pm25_to_aqi (Some 12.05) = (Some 500, Txt_hazardous, ''aqi-hazardous'')"
  by (simp add: pm25_to_aqi_def PM25_BREAKS_def)

text \<open>
  C3 (the code departs from the claim): the score is not monotone on \<open>[0, 500.4]\<close>.
  The concentrations \<open>12.05 < 12.1\<close> are both in range; the smaller falls in the gap
  and gets score 500, the larger is the lower bound of the second bucket and gets 51.
\<close>

theorem pm25_to_aqi_not_monotone:
  "(12.05::real) < 12.1 \<and> (0::real) \<le> 12.05 \<and> (12.1::real) \<le> 500.4 \<and>
   fst (pm25_to_aqi (Some 12.05)) = Some 500 \<and>
   fst (pm25_to_aqi (Some 12.1)) = Some 51"
  by (simp add: pm25_to_aqi_def PM25_BREAKS_def py_round_def)

text \<open>
  C8: \<^verbatim>\<open>pm25_to_aqi(600)\<close> is score 500 with the hazardous text and class, and a
  missing input gives a missing score with the "unknown" text and the class
  \<^verbatim>\<open>aqi-unknown\<close>.
\<close>

theorem pm25_to_aqi_saturation:
  "pm25_to_aqi (Some 600) = (Some 500, Txt_hazardous, ''aqi-hazardous'') \<and>
   pm25_to_aqi None = (None, Txt_unknown, ''aqi-unknown'')"
  by (simp add: pm25_to_aqi_def PM25_BREAKS_def)

text \<open>
  C10: every concentration strictly below zero matches no bucket (each bucket has a
  lower bound of at least zero) and is mapped to score 500, hazardous.
\<close>

theorem pm25_to_aqi_negative:
  "ug < 0 \<Longrightarrow> pm25_to_aqi (Some ug) = (Some 500, Txt_hazardous, ''aqi-hazardous'')"
  by (simp add: pm25_to_aqi_def PM25_BREAKS_def)

theorem pm25_to_aqi_negative_witness:
  "(- 1 :: real) < 0 \<and>
   pm25_to_aqi (Some (- 1)) = (Some 500, Txt_hazardous, ''aqi-hazardous'')"
  using pm25_to_aqi_negative [of "- 1"] by simp

section \<open>Detection of the time column: properties\<close>

text \<open>
  C9: when some column name, lowered, is one of \<^verbatim>\<open>timestamp\<close>, \<^verbatim>\<open>datetime\<close>, \<^verbatim>\<open>date\<close>,
  \<^verbatim>\<open>time\<close>, the time column is the first such column (no column before it matches);
  when none is, start-up ends in the failed assertion of line 22, before any route is
  registered or served.
\<close>

theorem TIME_COL_first_match:
  "((\<exists>c \<in> set columns. lower c \<in> set time_names) \<longrightarrow>
      (\<exists>pre c post. columns = pre @ c # post \<and> lower c \<in> set time_names \<and>
         (\<forall>p \<in> set pre. lower p \<notin> set time_names) \<and> TIME_COL columns = Inr c)) \<and>
   ((\<forall>c \<in> set columns. lower c \<notin> set time_names) \<longrightarrow>
      TIME_COL columns =
        Inl (AssertionError ''No datetime column found. Rename your time column or add it.''))"
proof (intro conjI impI)
  assume "\<exists>c \<in> set columns. lower c \<in> set time_names"
  then have "time_col_candidates columns \<noteq> []"
    by (auto simp: time_col_candidates_def filter_empty_conv)
  then obtain c rest where cr: "time_col_candidates columns = c # rest"
    by (cases "time_col_candidates columns") auto
  then obtain pre post where "columns = pre @ c # post"
    "\<forall>p \<in> set pre. lower p \<notin> set time_names" "lower c \<in> set time_names"
    unfolding time_col_candidates_def filter_eq_Cons_iff by blast
  moreover have "TIME_COL columns = Inr c"
    by (simp add: TIME_COL_def cr)
  ultimately show "\<exists>pre c post. columns = pre @ c # post \<and> lower c \<in> set time_names \<and>
         (\<forall>p \<in> set pre. lower p \<notin> set time_names) \<and> TIME_COL columns = Inr c"
    by blast
next
  assume "\<forall>c \<in> set columns. lower c \<notin> set time_names"
  then have "time_col_candidates columns = []"
    by (auto simp: time_col_candidates_def filter_empty_conv)
  then show "TIME_COL columns =
        Inl (AssertionError ''No datetime column found. Rename your time column or add it.'')"
    by (simp add: TIME_COL_def)
qed

theorem TIME_COL_first_match_witness:
  "(\<exists>c \<in> set [''id'', ''DateTime'', ''time'']. lower c \<in> set time_names) \<and>
   TIME_COL [''id'', ''DateTime'', ''time''] = Inr ''DateTime'' \<and>
   TIME_COL [''id'', ''PM2.5''] =
     Inl (AssertionError ''No datetime column found. Rename your time column or add it.'')"
proof -
  have a: "TIME_COL [''id'', ''DateTime'', ''time''] = Inr ''DateTime''"
    by (simp add: TIME_COL_def time_col_candidates_def lower_def lower_char_def time_names_def)
  have b: "\<forall>c \<in> set [''id'', ''PM2.5'']. lower c \<notin> set time_names"
    by (simp add: lower_def lower_char_def time_names_def)
  have c: "\<exists>c \<in> set [''id'', ''DateTime'', ''time'']. lower c \<in> set time_names"
    by (simp add: lower_def lower_char_def time_names_def)
  from TIME_COL_first_match [of "[''id'', ''PM2.5'']"] b
  have "TIME_COL [''id'', ''PM2.5''] =
     Inl (AssertionError ''No datetime column found. Rename your time column or add it.'')"
    by blast
  with a c show ?thesis by blast
qed

section \<open>The hourly grid\<close>

lemma hour_ns_pos: "0 < hour_ns"
  by (simp add: hour_ns_def)

lemma sorted_hd_Min: "sorted xs \<Longrightarrow> xs \<noteq> [] \<Longrightarrow> hd xs = Min (set xs)"
  by (cases xs) (auto intro!: Min_eqI [symmetric])

lemma sorted_last_Max: "sorted xs \<Longrightarrow> xs \<noteq> [] \<Longrightarrow> last xs = Max (set xs)"
proof (induction xs)
  case Nil
  then show ?case by simp
next
  case (Cons a xs)
  show ?case
  proof (cases "xs = []")
    case True
    then show ?thesis by simp
  next
    case False
    with Cons have "last xs = Max (set xs)" by simp
    moreover have "a \<le> Max (set xs)"
      using Cons.prems False by (metis List.finite_set Max_ge_iff last_in_set set_empty sorted_simps(2))
    ultimately show ?thesis using False by (simp add: max_def)
  qed
qed

lemma length_date_range: "length (date_range lo hi) = nat ((hi - lo) div hour_ns + 1)"
  by (simp add: date_range_def)

lemma nth_date_range:
  "i < length (date_range lo hi) \<Longrightarrow> date_range lo hi ! i = lo + int i * hour_ns"
  by (simp add: date_range_def)

lemma contiguous_nth:
  "contiguous ts \<longleftrightarrow> (\<forall>i. Suc i < length ts \<longrightarrow> ts ! Suc i = ts ! i + hour_ns)"
proof (induction ts rule: contiguous.induct)
  case (1 a b ts)
  show ?case
  proof
    assume c: "contiguous (a # b # ts)"
    show "\<forall>i. Suc i < length (a # b # ts) \<longrightarrow> (a # b # ts) ! Suc i = (a # b # ts) ! i + hour_ns"
    proof (intro allI impI)
      fix i assume "Suc i < length (a # b # ts)"
      then show "(a # b # ts) ! Suc i = (a # b # ts) ! i + hour_ns"
        using c 1 by (cases i) auto
    qed
  next
    assume h: "\<forall>i. Suc i < length (a # b # ts) \<longrightarrow> (a # b # ts) ! Suc i = (a # b # ts) ! i + hour_ns"
    from h [rule_format, of 0] have "b = a + hour_ns" by simp
    moreover have "\<forall>i. Suc i < length (b # ts) \<longrightarrow> (b # ts) ! Suc i = (b # ts) ! i + hour_ns"
      using h [rule_format, of "Suc i" for i] by simp
    ultimately show "contiguous (a # b # ts)" using 1 by simp
  qed
qed simp_all

lemma contiguous_nth_eq:
  "contiguous ts \<Longrightarrow> i < length ts \<Longrightarrow> ts ! i = hd ts + int i * hour_ns"
proof (induction i)
  case 0
  then show ?case by (cases ts) auto
next
  case (Suc i)
  then have "ts ! Suc i = ts ! i + hour_ns" by (simp add: contiguous_nth)
  with Suc show ?case by (simp add: algebra_simps)
qed

lemma contiguous_date_range: "contiguous (date_range lo hi)"
  by (simp add: contiguous_nth nth_date_range algebra_simps)

lemma date_range_nonempty: "lo \<le> hi \<Longrightarrow> date_range lo hi \<noteq> []"
proof -
  assume "lo \<le> hi"
  then have "0 \<le> (hi - lo) div hour_ns" using hour_ns_pos by (simp add: pos_imp_zdiv_nonneg_iff)
  then have "0 < length (date_range lo hi)" by (simp add: length_date_range)
  then show ?thesis by simp
qed

lemma hd_date_range: "lo \<le> hi \<Longrightarrow> hd (date_range lo hi) = lo"
  using date_range_nonempty [of lo hi] nth_date_range [of 0 lo hi]
  by (simp add: hd_conv_nth)

lemma last_date_range:
  assumes "lo \<le> hi" "hour_ns dvd hi - lo"
  shows "last (date_range lo hi) = hi"
proof -
  have ne: "date_range lo hi \<noteq> []" using assms(1) by (rule date_range_nonempty)
  have nn: "0 \<le> (hi - lo) div hour_ns" using assms(1) hour_ns_pos by (simp add: pos_imp_zdiv_nonneg_iff)
  have "last (date_range lo hi) = date_range lo hi ! (length (date_range lo hi) - 1)"
    using ne by (simp add: last_conv_nth)
  also have "\<dots> = lo + int (length (date_range lo hi) - 1) * hour_ns"
    using ne by (simp add: nth_date_range)
  also have "int (length (date_range lo hi) - 1) = (hi - lo) div hour_ns"
    using nn by (simp add: length_date_range)
  also have "lo + (hi - lo) div hour_ns * hour_ns = hi"
    using assms(2) by simp
  finally show ?thesis .
qed

lemma set_date_range:
  "set (date_range lo hi) = {t. lo \<le> t \<and> t \<le> hi \<and> hour_ns dvd t - lo}"
proof (intro set_eqI iffI)
  fix t assume "t \<in> set (date_range lo hi)"
  then obtain i where i: "i < length (date_range lo hi)" and t: "t = lo + int i * hour_ns"
    by (auto simp: in_set_conv_nth nth_date_range)
  from i have "int i \<le> (hi - lo) div hour_ns" by (simp add: length_date_range)
  then have "int i * hour_ns \<le> (hi - lo) div hour_ns * hour_ns"
    using hour_ns_pos by (simp add: mult_right_mono)
  also have "\<dots> \<le> hi - lo"
    using hour_ns_pos by (metis div_mult_mod_eq le_add_same_cancel1 pos_mod_sign)
  finally have "t \<le> hi" using t by simp
  moreover have "lo \<le> t" using t hour_ns_pos by simp
  ultimately show "t \<in> {t. lo \<le> t \<and> t \<le> hi \<and> hour_ns dvd t - lo}" using t by simp
next
  fix t assume "t \<in> {t. lo \<le> t \<and> t \<le> hi \<and> hour_ns dvd t - lo}"
  then have lo: "lo \<le> t" and hi: "t \<le> hi" and d: "hour_ns dvd t - lo" by auto
  define i where "i = nat ((t - lo) div hour_ns)"
  have nn: "0 \<le> (t - lo) div hour_ns" using lo hour_ns_pos by (simp add: pos_imp_zdiv_nonneg_iff)
  have "(t - lo) div hour_ns \<le> (hi - lo) div hour_ns"
    using hi hour_ns_pos by (simp add: zdiv_mono1)
  then have "i < length (date_range lo hi)" using nn by (simp add: i_def length_date_range)
  moreover have "lo + int i * hour_ns = t" using nn d by (simp add: i_def)
  ultimately show "t \<in> set (date_range lo hi)"
    by (metis nth_date_range nth_mem)
qed

lemma distinct_date_range: "distinct (date_range lo hi)"
  using hour_ns_pos by (auto simp: date_range_def distinct_map inj_on_def)

lemma sorted_date_range: "sorted (date_range lo hi)"
  using hour_ns_pos by (auto simp: date_range_def sorted_map intro!: sorted_wrt_mono_rel[of _ "(\<le>)"])

lemma contiguous_eq_date_range:
  assumes "contiguous ts" "ts \<noteq> []"
  shows "date_range (hd ts) (last ts) = ts"
proof (rule nth_equalityI)
  have l: "last ts = hd ts + int (length ts - 1) * hour_ns"
    using assms by (simp add: last_conv_nth contiguous_nth_eq)
  then have "(last ts - hd ts) div hour_ns = int (length ts - 1)"
    using hour_ns_pos by simp
  then show len: "length (date_range (hd ts) (last ts)) = length ts"
    using assms(2) by (cases ts) (simp_all add: length_date_range)
  fix i assume "i < length (date_range (hd ts) (last ts))"
  then show "date_range (hd ts) (last ts) ! i = ts ! i"
    using len assms(1) by (simp add: nth_date_range contiguous_nth_eq)
qed

section \<open>The pipeline unfolded\<close>

lemma is_num_take_rows [simp]: "is_num (take_rows ps col) = is_num col"
  by (cases col) simp_all

lemma filter_map_snd:
  "filter (\<lambda>(c, col). P col) (map (\<lambda>(c, col). (c, g col)) cs) =
   map (\<lambda>(c, col). (c, g col)) (filter (\<lambda>(c, col). P (g col)) cs)"
  by (induction cs) auto

lemma map_map_snd:
  "map (\<lambda>(c, col). (c, g col)) (map (\<lambda>(c, col). (c, h col)) cs) =
   map (\<lambda>(c, col). (c, g (h col))) cs"
  by (induction cs) auto

lemma fst_set_map_snd: "fst ` set (map (\<lambda>(c, col). (c, g col)) cs) = fst ` set cs"
  by (induction cs) auto

lemma fst_set_num_first: "fst ` set (num_first cs) = fst ` set cs"
  by (auto simp: num_first_def)

lemma sort_floor_eq:
  "sort_floor df = \<lparr>index = norm_ts df,
     cols = map (\<lambda>(c, col). (c, take_rows (norm_order df) col)) (rcols df)\<rparr>"
  by (simp add: sort_floor_def norm_ts_def norm_order_def Let_def)

lemma num_first_Nil: "num_first cs = [] \<longleftrightarrow> cs = []"
  by (cases cs) (auto simp: num_first_def)

lemma groupby_agg_sort_floor:
  "groupby_agg (sort_floor df) =
    (if rcols df = [] then Inl ValueError
     else Inr \<lparr>index = norm_keys df,
       cols = map (\<lambda>(c, col). (c, agg (norm_keys df) (norm_ts df) (take_rows (norm_order df) col)))
                (num_first (rcols df))\<rparr>)"
proof -
  have "filter (\<lambda>(c, col). is_num col) (rcols df) @ filter (\<lambda>(c, col). \<not> is_num col) (rcols df) = []
      \<longleftrightarrow> rcols df = []"
    using num_first_Nil [of "rcols df"] by (simp add: num_first_def)
  then show ?thesis
    by (simp add: groupby_agg_def sort_floor_eq Let_def norm_keys_def num_first_def
        filter_map_snd map_map_snd)
qed

lemma assert_target_map:
  "assert_target target \<lparr>index = idx, cols = map (\<lambda>(c, col). (c, g col)) cs\<rparr> =
    (if target \<in> fst ` set cs
     then Inr \<lparr>index = idx, cols = map (\<lambda>(c, col). (c, g col)) cs\<rparr>
     else Inl (AssertionError (''Target '' @ target @ '' not found.'')))"
  unfolding assert_target_def by (simp only: frame.simps fst_set_map_snd)

lemma gap_fill_eq:
  "gap_fill \<lparr>index = idx, cols = map (\<lambda>(c, col). (c, g col)) cs\<rparr> =
     \<lparr>index = idx, cols = map (\<lambda>(c, col). (c, fill_col idx (g col))) cs\<rparr>"
  by (auto simp: gap_fill_def)

lemma reindex_hourly_eq:
  "reindex_hourly \<lparr>index = keys, cols = map (\<lambda>(c, col). (c, g col)) cs\<rparr> =
    (if keys = [] then Inl ValueError
     else Inr \<lparr>index = date_range (hd keys) (last keys),
              cols = map (\<lambda>(c, col).
                (c, reindex_col keys (date_range (hd keys) (last keys)) (g col))) cs\<rparr>)"
  by (auto simp: reindex_hourly_def Let_def)

lemma normalize_eq:
  "normalize_frame target df =
    (if rcols df = [] \<or> norm_keys df = [] then Inl ValueError
     else if target \<in> fst ` set (rcols df)
       then Inr \<lparr>index = norm_idx df,
                 cols = map (\<lambda>(c, col). (c, norm_col df col)) (num_first (rcols df))\<rparr>
       else Inl (AssertionError (''Target '' @ target @ '' not found.'')))"
proof (cases "rcols df = [] \<or> norm_keys df = []")
  case True
  then show ?thesis
    by (auto simp: normalize_frame_def groupby_agg_sort_floor reindex_hourly_eq)
next
  case False
  have "normalize_frame target df =
      assert_target target \<lparr>index = norm_idx df,
        cols = map (\<lambda>(c, col). (c, norm_col df col)) (num_first (rcols df))\<rparr>"
    using False
    by (simp add: normalize_frame_def groupby_agg_sort_floor reindex_hourly_eq gap_fill_eq
        norm_idx_def norm_col_def)
  then show ?thesis
    using False by (simp only: assert_target_map fst_set_num_first if_False)
qed

section \<open>Parsed rows, group keys and the hourly index\<close>

lemma parsed_rows_iff:
  "(t, j) \<in> set (parsed_rows i ts) \<longleftrightarrow> i \<le> j \<and> j - i < length ts \<and> ts ! (j - i) = Some t"
proof (induction i ts rule: parsed_rows.induct)
  case (1 i)
  then show ?case by simp
next
  case (2 i ts)
  show ?case
  proof (cases "j = i")
    case True
    then show ?thesis using 2 by auto
  next
    case False
    then show ?thesis using 2 by (auto simp: nth_Cons' Suc_diff_le)
  qed
next
  case (3 i t' ts)
  show ?case
  proof (cases "j = i")
    case True
    then show ?thesis using 3 by auto
  next
    case False
    then show ?thesis using 3 by (auto simp: nth_Cons' Suc_diff_le)
  qed
qed

lemma parsed_rows_map_Some: "parsed_rows i (map Some ts) = zip ts [i..<i + length ts]"
proof (induction ts arbitrary: i)
  case Nil
  then show ?case by simp
next
  case (Cons t ts)
  have "[i..<i + length (t # ts)] = i # [Suc i..<Suc i + length ts]"
    by (simp add: upt_rec)
  then show ?case using Cons [of "Suc i"] by simp
qed

lemma set_norm_ts: "set (norm_ts df) = floor_h ` {t. Some t \<in> set (stamps df)}"
proof -
  have "t \<in> fst ` set (parsed_rows 0 (stamps df)) \<longleftrightarrow> Some t \<in> set (stamps df)" for t
  proof -
    have "t \<in> fst ` set (parsed_rows 0 (stamps df)) \<longleftrightarrow>
        (\<exists>j. (t, j) \<in> set (parsed_rows 0 (stamps df)))" by force
    also have "\<dots> \<longleftrightarrow> (\<exists>j. j < length (stamps df) \<and> stamps df ! j = Some t)"
      by (simp add: parsed_rows_iff)
    also have "\<dots> \<longleftrightarrow> Some t \<in> set (stamps df)"
      by (auto simp: in_set_conv_nth)
    finally show ?thesis .
  qed
  then have "fst ` set (parsed_rows 0 (stamps df)) = {t. Some t \<in> set (stamps df)}"
    by blast
  then have "floor_h ` fst ` set (parsed_rows 0 (stamps df)) =
      floor_h ` {t. Some t \<in> set (stamps df)}"
    by simp
  then show ?thesis
    by (simp add: norm_ts_def image_image)
qed

lemma length_norm_order: "length (norm_order df) = length (norm_ts df)"
  by (simp add: norm_order_def norm_ts_def)

lemma norm_order_nth:
  "j < length (norm_order df) \<Longrightarrow>
   norm_order df ! j < length (stamps df) \<and>
   (\<exists>t. stamps df ! (norm_order df ! j) = Some t \<and> norm_ts df ! j = floor_h t)"
proof -
  assume j: "j < length (norm_order df)"
  let ?rows = "sort_key fst (parsed_rows 0 (stamps df))"
  have "?rows ! j \<in> set (parsed_rows 0 (stamps df))"
    using j by (metis length_map norm_order_def nth_mem set_sort)
  then have "snd (?rows ! j) < length (stamps df) \<and>
     stamps df ! (snd (?rows ! j)) = Some (fst (?rows ! j))"
    using parsed_rows_iff [of "fst (?rows ! j)" "snd (?rows ! j)" 0 "stamps df"] by simp
  then show ?thesis using j by (simp add: norm_order_def norm_ts_def)
qed

lemma set_norm_order:
  "set (norm_order df) = {i. i < length (stamps df) \<and> stamps df ! i \<noteq> None}"
proof -
  have "i \<in> snd ` set (parsed_rows 0 (stamps df)) \<longleftrightarrow>
      i < length (stamps df) \<and> stamps df ! i \<noteq> None" for i
  proof -
    have "i \<in> snd ` set (parsed_rows 0 (stamps df)) \<longleftrightarrow>
        (\<exists>t. (t, i) \<in> set (parsed_rows 0 (stamps df)))" by force
    then show ?thesis by (auto simp: parsed_rows_iff)
  qed
  then have "snd ` set (parsed_rows 0 (stamps df)) =
      {i. i < length (stamps df) \<and> stamps df ! i \<noteq> None}"
    by blast
  then show ?thesis by (simp add: norm_order_def)
qed

lemma norm_keys_props:
  "sorted (norm_keys df)" "distinct (norm_keys df)" "set (norm_keys df) = set (norm_ts df)"
  by (simp_all add: norm_keys_def)

lemma floor_h_dvd: "hour_ns dvd floor_h t"
  by (simp add: floor_h_def)

lemma floor_h_id: "hour_ns dvd t \<Longrightarrow> floor_h t = t"
  by (simp add: floor_h_def)

lemma norm_keys_dvd: "k \<in> set (norm_keys df) \<Longrightarrow> hour_ns dvd k"
  by (auto simp: norm_keys_props set_norm_ts floor_h_dvd)

lemma norm_keys_empty: "norm_keys df = [] \<longleftrightarrow> (\<forall>t. Some t \<notin> set (stamps df))"
proof -
  have "norm_keys df = [] \<longleftrightarrow> set (norm_keys df) = {}" by simp
  also have "\<dots> \<longleftrightarrow> (\<forall>t. Some t \<notin> set (stamps df))"
    by (auto simp: norm_keys_props set_norm_ts)
  finally show ?thesis .
qed

lemma norm_keys_bounds:
  assumes "norm_keys df \<noteq> []"
  shows "hd (norm_keys df) = Min (floor_h ` {t. Some t \<in> set (stamps df)})"
    and "last (norm_keys df) = Max (floor_h ` {t. Some t \<in> set (stamps df)})"
    and "hd (norm_keys df) \<le> last (norm_keys df)"
    and "hour_ns dvd last (norm_keys df) - hd (norm_keys df)"
proof -
  show "hd (norm_keys df) = Min (floor_h ` {t. Some t \<in> set (stamps df)})"
    using assms sorted_hd_Min [OF norm_keys_props(1)] by (simp add: norm_keys_props set_norm_ts)
  show "last (norm_keys df) = Max (floor_h ` {t. Some t \<in> set (stamps df)})"
    using assms sorted_last_Max [OF norm_keys_props(1)] by (simp add: norm_keys_props set_norm_ts)
  have "hd (norm_keys df) \<in> set (norm_keys df)" "last (norm_keys df) \<in> set (norm_keys df)"
    using assms by simp_all
  then show "hour_ns dvd last (norm_keys df) - hd (norm_keys df)"
    by (simp add: norm_keys_dvd)
  show "hd (norm_keys df) \<le> last (norm_keys df)"
    using assms norm_keys_props(1) [of df]
    by (metis \<open>last (norm_keys df) \<in> set (norm_keys df)\<close> list.collapse order_refl set_ConsD sorted_simps(2))
qed

lemma set_norm_idx:
  assumes "norm_keys df \<noteq> []"
  shows "set (norm_idx df) =
    {t. hd (norm_keys df) \<le> t \<and> t \<le> last (norm_keys df) \<and> hour_ns dvd t}"
proof -
  have "hour_ns dvd hd (norm_keys df)" using norm_keys_dvd [OF hd_in_set [OF assms]] .
  then have "hour_ns dvd t - hd (norm_keys df) \<longleftrightarrow> hour_ns dvd t" for t
    by (simp add: dvd_diff_left_iff)
  then show ?thesis by (simp add: norm_idx_def set_date_range)
qed

lemma norm_keys_subset_idx: "set (norm_keys df) \<subseteq> set (norm_idx df)"
proof
  fix k assume k: "k \<in> set (norm_keys df)"
  then have ne: "norm_keys df \<noteq> []" by auto
  have "hd (norm_keys df) \<le> k"
    using k norm_keys_props(1) [of df] by (cases "norm_keys df") auto
  moreover have "k \<le> last (norm_keys df)"
    using k ne sorted_last_Max [OF norm_keys_props(1) ne] by simp
  ultimately show "k \<in> set (norm_idx df)"
    using k ne by (simp add: set_norm_idx norm_keys_dvd)
qed

section \<open>The index of the hourly series\<close>

lemma normalize_index:
  assumes "normalize_frame target df = Inr h"
  shows "norm_keys df \<noteq> []" "index h = norm_idx df"
    "cols h = map (\<lambda>(c, col). (c, norm_col df col)) (num_first (rcols df))"
    "target \<in> fst ` set (rcols df)"
  using assms by (auto simp: normalize_eq split: if_splits)

lemma normalize_raw_example: "normalize_frame ''PM2.5'' raw_example = Inr hourly_example"
  by (simp add: normalize_frame_def sort_floor_def groupby_agg_def reindex_hourly_def gap_fill_def
      assert_target_def raw_example_def hourly_example_def hour_ns_def floor_h_def date_range_def
      group_cells_def agg_mean_def agg_last_def mean_def reindex_cells_def interpolate_def
      ffill_def bfill_def mode_val_def Let_def upt_rec)

text \<open>
  C6: whenever the pipeline returns an hourly series (which takes at least one row whose
  timestamp parses), its index is not empty, starts at the least floored timestamp, ends
  at the greatest, each key is one hour after the one before it, no key occurs twice,
  and every whole hour between the first and the last key is a key.
\<close>

theorem normalize_index_contiguous:
  assumes "normalize_frame target df = Inr h"
  shows "index h \<noteq> [] \<and>
    hd (index h) = Min (floor_h ` {t. Some t \<in> set (stamps df)}) \<and>
    last (index h) = Max (floor_h ` {t. Some t \<in> set (stamps df)}) \<and>
    (\<forall>i. Suc i < length (index h) \<longrightarrow> index h ! Suc i = index h ! i + hour_ns) \<and>
    distinct (index h) \<and>
    set (index h) = {t. hd (index h) \<le> t \<and> t \<le> last (index h) \<and> hour_ns dvd t}"
proof -
  have ne: "norm_keys df \<noteq> []" and idx: "index h = norm_idx df"
    using normalize_index [OF assms] by simp_all
  note b = norm_keys_bounds [OF ne]
  have h: "hd (index h) = hd (norm_keys df)"
    by (simp add: idx norm_idx_def hd_date_range b(3))
  have l: "last (index h) = last (norm_keys df)"
    by (simp add: idx norm_idx_def last_date_range b(3,4))
  have "index h \<noteq> []"
    by (simp add: idx norm_idx_def date_range_nonempty b(3))
  moreover have "\<forall>i. Suc i < length (index h) \<longrightarrow> index h ! Suc i = index h ! i + hour_ns"
    using contiguous_date_range [of "hd (norm_keys df)" "last (norm_keys df)"]
    by (simp add: idx norm_idx_def contiguous_nth)
  moreover have "distinct (index h)"
    by (simp add: idx norm_idx_def distinct_date_range)
  moreover have "set (index h) = {t. hd (index h) \<le> t \<and> t \<le> last (index h) \<and> hour_ns dvd t}"
    unfolding h l by (simp add: idx set_norm_idx [OF ne])
  ultimately show ?thesis using h l b(1,2) by simp
qed

theorem normalize_index_contiguous_witness:
  "normalize_frame ''PM2.5'' raw_example = Inr hourly_example \<and>
   index hourly_example = [0, hour_ns, 2 * hour_ns, 3 * hour_ns, 4 * hour_ns, 5 * hour_ns] \<and>
   hd (index hourly_example) = Min (floor_h ` {t. Some t \<in> set (stamps raw_example)}) \<and>
   last (index hourly_example) = Max (floor_h ` {t. Some t \<in> set (stamps raw_example)}) \<and>
   distinct (index hourly_example)"
  using normalize_index_contiguous [OF normalize_raw_example] normalize_raw_example
  by (simp add: hourly_example_def)

lemma normalize_succeeds:
  assumes "Some t \<in> set (stamps df)" "target \<in> fst ` set (rcols df)"
  shows "\<exists>h. normalize_frame target df = Inr h"
  using assms by (auto simp: normalize_eq norm_keys_empty)

section \<open>Gap filling\<close>

lemma set_valid_values: "set (valid_values xs) = {v. Some v \<in> set xs}"
  by (induction xs rule: valid_values.induct) auto

lemma length_ffill_from [simp]: "length (ffill_from p xs) = length xs"
  by (induction p xs rule: ffill_from.induct) auto

lemma ffill_from_Some: "None \<notin> set (ffill_from (Some v) xs)"
  by (induction "Some v" xs arbitrary: v rule: ffill_from.induct) auto

lemma ffill_from_keeps: "Some v \<in> set xs \<Longrightarrow> Some v \<in> set (ffill_from p xs)"
  by (induction p xs rule: ffill_from.induct) auto

lemma ffill_from_valid_prefix:
  "None \<notin> set ys \<Longrightarrow> ys \<noteq> [] \<Longrightarrow> None \<notin> set (ffill_from p (ys @ zs))"
proof (induction ys arbitrary: p)
  case Nil
  then show ?case by simp
next
  case (Cons y ys)
  then obtain v where "y = Some v" by (cases y) auto
  then show ?case using Cons.prems ffill_from_Some [of v "ys @ zs"] by simp
qed

lemma ffill_from_shape:
  "Some v \<in> set xs \<Longrightarrow>
   \<exists>n ys. ffill_from None xs = replicate n None @ ys \<and> ys \<noteq> [] \<and> None \<notin> set ys"
proof (induction xs)
  case Nil
  then show ?case by simp
next
  case (Cons x xs)
  show ?case
  proof (cases x)
    case None
    with Cons obtain n ys where "ffill_from None xs = replicate n None @ ys" "ys \<noteq> []" "None \<notin> set ys"
      by auto
    then have "ffill_from None (x # xs) = replicate (Suc n) None @ ys \<and> ys \<noteq> [] \<and> None \<notin> set ys"
      using None by simp
    then show ?thesis by blast
  next
    case (Some w)
    then have "ffill_from None (x # xs) = replicate 0 None @ (Some w # ffill_from (Some w) xs)"
      by simp
    moreover have "None \<notin> set (Some w # ffill_from (Some w) xs)"
      using ffill_from_Some [of w xs] by simp
    ultimately show ?thesis by blast
  qed
qed

lemma bfill_ffill_complete:
  assumes "Some v \<in> set xs"
  shows "None \<notin> set (bfill (ffill xs))"
proof -
  obtain n ys where s: "ffill_from None xs = replicate n None @ ys" "ys \<noteq> []" "None \<notin> set ys"
    using ffill_from_shape [OF assms] by auto
  have "None \<notin> set (ffill_from None (rev ys @ replicate n None))"
    using s(2,3) by (intro ffill_from_valid_prefix) simp_all
  then show ?thesis by (simp add: bfill_def s(1) ffill_def)
qed

lemma interpolate_keeps:
  assumes "Some v \<in> set xs" "length idx = length xs"
  shows "Some v \<in> set (interpolate idx xs)"
proof (cases "valid_points idx xs = []")
  case True
  then show ?thesis using assms by (simp add: interpolate_def)
next
  case False
  from assms obtain j where j: "j < length xs" "xs ! j = Some v"
    by (auto simp: in_set_conv_nth)
  then have "(idx ! j, Some v) \<in> set (zip idx xs)"
    using assms(2) by (auto simp: set_zip)
  then have "(\<lambda>(t, x). case x of Some v \<Rightarrow> Some v | None \<Rightarrow> np_interp (valid_points idx xs) t)
      (idx ! j, Some v) \<in> set (interpolate idx xs)"
    using False unfolding interpolate_def Let_def by (simp only: if_False set_map) (rule imageI)
  then show ?thesis by simp
qed

lemma length_interpolate: "length idx = length xs \<Longrightarrow> length (interpolate idx xs) = length xs"
  by (simp add: interpolate_def Let_def)

lemma fill_num_complete:
  assumes "Some v \<in> set xs" "length idx = length xs"
  shows "None \<notin> set (bfill (ffill (interpolate idx xs)))"
  by (rule bfill_ffill_complete [OF interpolate_keeps [OF assms]])

section \<open>No missing numeric cell\<close>

lemma take_rows_observed:
  assumes "list_ex (\<lambda>(t, x). t \<noteq> None \<and> x \<noteq> None) (zip (stamps df) xs)"
  shows "\<exists>v. Some v \<in> set (map ((!) xs) (norm_order df))"
proof -
  from assms obtain p where p: "p \<in> set (zip (stamps df) xs)" "fst p \<noteq> None" "snd p \<noteq> None"
    by (auto simp: list_ex_iff)
  from p(1) obtain i where i0: "i < length (stamps df)" "i < length xs"
    "p = (stamps df ! i, xs ! i)"
    by (auto simp: set_zip)
  from p(3) i0(3) obtain v where v: "xs ! i = Some v" by auto
  have i: "i < length (stamps df)" "i < length xs" "stamps df ! i \<noteq> None" "xs ! i = Some v"
    using i0 p(2) v by simp_all
  from i(1,3) have "i \<in> set (norm_order df)" by (simp add: set_norm_order)
  then have "xs ! i \<in> set (map ((!) xs) (norm_order df))" by simp
  then show ?thesis using i(4) by auto
qed

lemma agg_mean_has_value:
  assumes "Some v \<in> set xs" "length ts = length xs"
  shows "\<exists>w. Some w \<in> set (map (\<lambda>k. agg_mean (group_cells ts xs k)) (sort (remdups ts)))"
proof -
  from assms obtain j where j: "j < length xs" "xs ! j = Some v"
    by (auto simp: in_set_conv_nth)
  let ?k = "ts ! j"
  have "(?k, Some v) \<in> set (zip ts xs)"
    using j assms(2) by (auto simp: set_zip)
  then have "Some v \<in> set (group_cells ts xs ?k)"
    by (force simp: group_cells_def)
  then have "valid_values (group_cells ts xs ?k) \<noteq> []"
    using set_valid_values [of "group_cells ts xs ?k"] by auto
  then have "agg_mean (group_cells ts xs ?k) = Some (mean (valid_values (group_cells ts xs ?k)))"
    by (simp add: agg_mean_def)
  moreover have "?k \<in> set (sort (remdups ts))"
    using j assms(2) by simp
  ultimately show ?thesis by (metis (no_types, lifting) image_eqI set_map)
qed

lemma length_reindex_cells [simp]: "length (reindex_cells keys xs full) = length full"
  by (simp add: reindex_cells_def)

lemma reindex_has_value:
  assumes "Some v \<in> set xs" "length keys = length xs" "distinct keys" "set keys \<subseteq> set full"
  shows "Some v \<in> set (reindex_cells keys xs full)"
proof -
  from assms obtain j where j: "j < length xs" "xs ! j = Some v"
    by (auto simp: in_set_conv_nth)
  have "map_of (zip keys xs) (keys ! j) = Some (xs ! j)"
    using assms(2,3) j(1) by (rule map_of_zip_nth)
  moreover have "keys ! j \<in> set full"
    using assms(2,4) j(1) by (metis nth_mem subsetD)
  ultimately have "(\<lambda>t. case map_of (zip keys xs) t of None \<Rightarrow> None | Some v \<Rightarrow> v) (keys ! j)
      \<in> set (reindex_cells keys xs full)"
    unfolding reindex_cells_def set_map by (intro imageI)
  then show ?thesis using \<open>map_of (zip keys xs) (keys ! j) = Some (xs ! j)\<close> j(2) by simp
qed

lemma norm_col_NumCol:
  "norm_col df (NumCol xs) =
    NumCol (bfill (ffill (interpolate (norm_idx df)
      (reindex_cells (norm_keys df)
        (map (\<lambda>k. agg_mean (group_cells (norm_ts df) (map ((!) xs) (norm_order df)) k))
           (norm_keys df))
        (norm_idx df)))))"
  by (simp add: norm_col_def)

lemma norm_col_ObjCol: "\<exists>ys. norm_col df (ObjCol xs) = ObjCol ys"
  by (simp add: norm_col_def)

lemma norm_col_complete:
  assumes "col_observed (stamps df) col"
  shows "num_complete (norm_col df col)"
proof (cases col)
  case (ObjCol xs)
  then show ?thesis using norm_col_ObjCol [of df xs] by auto
next
  case (NumCol xs)
  let ?a = "map (\<lambda>k. agg_mean (group_cells (norm_ts df) (map ((!) xs) (norm_order df)) k))
           (norm_keys df)"
  from assms NumCol obtain v where "Some v \<in> set (map ((!) xs) (norm_order df))"
    using take_rows_observed [of df xs] by auto
  then obtain w where "Some w \<in> set ?a"
    using agg_mean_has_value [of v "map ((!) xs) (norm_order df)" "norm_ts df"]
    by (auto simp: length_norm_order norm_keys_def)
  then have "Some w \<in> set (reindex_cells (norm_keys df) ?a (norm_idx df))"
    by (rule reindex_has_value [OF _ _ norm_keys_props(2) norm_keys_subset_idx]) simp_all
  then have "None \<notin> set (bfill (ffill (interpolate (norm_idx df)
      (reindex_cells (norm_keys df) ?a (norm_idx df)))))"
    by (intro fill_num_complete) simp_all
  then show ?thesis using NumCol by (simp add: norm_col_NumCol)
qed

lemma set_num_first: "set (num_first cs) = set cs"
  by (auto simp: num_first_def)

text \<open>
  C5, as amended: when every numeric column of the raw table has a cell that is not
  missing in a row whose timestamp parses, and every number of the table is in range
  (finite, of magnitude at most \<open>10 ^ 100\<close>), no numeric cell of the hourly series that
  the pipeline returns is missing. The range is what keeps the mean of a group of
  doubles from being NaN; in the exact arithmetic of the model a group that has a
  value always has a mean.
\<close>

theorem normalize_no_missing_numeric:
  assumes "all_cols (col_observed (stamps df)) (rcols df)"
    and "all_cols col_in_range (rcols df)"
    and "normalize_frame target df = Inr h"
  shows "all_cols num_complete (cols h)"
proof -
  have "cols h = map (\<lambda>(c, col). (c, norm_col df col)) (num_first (rcols df))"
    using normalize_index(3) [OF assms(3)] .
  moreover have "num_complete (norm_col df col)" if "(c, col) \<in> set (num_first (rcols df))" for c col
    using that assms(1)
    by (intro norm_col_complete) (auto simp: set_num_first list_all_iff all_cols_def)
  ultimately show ?thesis by (auto simp: list_all_iff all_cols_def)
qed

lemma raw_example_observed: "all_cols (col_observed (stamps raw_example)) (rcols raw_example)"
  by (simp add: raw_example_def all_cols_def)

lemma raw_example_in_range: "all_cols col_in_range (rcols raw_example)"
  by (simp add: raw_example_def all_cols_def in_range_def fl_bound_def)

theorem normalize_no_missing_numeric_witness:
  "all_cols (col_observed (stamps raw_example)) (rcols raw_example) \<and>
   all_cols col_in_range (rcols raw_example) \<and>
   normalize_frame ''PM2.5'' raw_example = Inr hourly_example \<and>
   all_cols num_complete (cols hourly_example)"
  using normalize_no_missing_numeric
      [OF raw_example_observed raw_example_in_range normalize_raw_example]
    raw_example_observed raw_example_in_range normalize_raw_example
  by simp

text \<open>
  C5 as stated fails: in \<open>raw_dropped\<close> the numeric column has a value, but in the row
  whose timestamp does not parse. Line 27 drops that row, the column of the one
  remaining hour has no value, and interpolation and both fills leave it missing.
\<close>

theorem normalize_missing_numeric_counterexample:
  "all_cols col_has_value (rcols raw_dropped) \<and>
   normalize_frame ''PM2.5'' raw_dropped = Inr \<lparr>index = [0], cols = [(''PM2.5'', NumCol [None])]\<rparr> \<and>
   \<not> all_cols num_complete [(''PM2.5'', NumCol [None])]"
  by (simp add: all_cols_def normalize_frame_def sort_floor_def groupby_agg_def reindex_hourly_def gap_fill_def
      assert_target_def raw_dropped_def hour_ns_def floor_h_def date_range_def
      group_cells_def agg_mean_def agg_last_def mean_def reindex_cells_def interpolate_def
      ffill_def bfill_def mode_val_def Let_def upt_rec)

section \<open>Normalising a complete hourly frame\<close>

lemma contiguous_sorted_distinct:
  assumes "contiguous ts"
  shows "sorted ts" "distinct ts"
proof -
  have "ts = [] \<or> ts = date_range (hd ts) (last ts)"
    using contiguous_eq_date_range [OF assms] by metis
  then show "sorted ts" "distinct ts"
    using sorted_date_range [of "hd ts" "last ts"] distinct_date_range [of "hd ts" "last ts"]
    by auto
qed

lemma contiguous_aligned:
  assumes "contiguous ts" "ts \<noteq> []" "hour_ns dvd hd ts"
  shows "map floor_h ts = ts"
proof (rule map_idI)
  fix t assume "t \<in> set ts"
  then obtain i where "i < length ts" "t = ts ! i" by (auto simp: in_set_conv_nth)
  then have "t = hd ts + int i * hour_ns" using assms(1) by (simp add: contiguous_nth_eq)
  then have "hour_ns dvd t" using assms(3) by simp
  then show "floor_h t = t" by (rule floor_h_id)
qed

lemma sorted_rows_as_raw:
  assumes "sorted (index h)"
  shows "sort_key fst (parsed_rows 0 (stamps (as_raw h))) = zip (index h) [0..<length (index h)]"
proof -
  have "parsed_rows 0 (stamps (as_raw h)) = zip (index h) [0..<length (index h)]"
    using parsed_rows_map_Some [of 0 "index h"] by (simp add: as_raw_def)
  moreover have "sorted (map fst (zip (index h) [0..<length (index h)]))"
    using assms by simp
  ultimately show ?thesis by (simp add: sort_key_id_if_sorted)
qed

lemma norm_as_raw:
  assumes "contiguous (index h)" "index h \<noteq> []" "hour_ns dvd hd (index h)"
  shows "norm_order (as_raw h) = [0..<length (index h)]"
    and "norm_ts (as_raw h) = index h"
    and "norm_keys (as_raw h) = index h"
    and "norm_idx (as_raw h) = index h"
proof -
  note sd = contiguous_sorted_distinct [OF assms(1)]
  note rows = sorted_rows_as_raw [OF sd(1)]
  show "norm_order (as_raw h) = [0..<length (index h)]"
    by (simp add: norm_order_def rows)
  have "norm_ts (as_raw h) = map floor_h (index h)"
    by (simp add: norm_ts_def rows map_map [symmetric] del: map_map)
  then show ts: "norm_ts (as_raw h) = index h"
    using contiguous_aligned [OF assms] by simp
  show keys: "norm_keys (as_raw h) = index h"
    using sd by (simp add: norm_keys_def ts distinct_remdups_id sorted_sort_id)
  show "norm_idx (as_raw h) = index h"
    using contiguous_eq_date_range [OF assms(1,2)] by (simp add: norm_idx_def keys)
qed

lemma filter_zip_absent: "k \<notin> set ts \<Longrightarrow> filter (\<lambda>p. fst p = k) (zip ts xs) = []"
  by (auto simp: filter_empty_conv dest: set_zip_leftD)

lemma group_cells_distinct:
  "distinct ts \<Longrightarrow> length ts = length xs \<Longrightarrow> j < length ts \<Longrightarrow>
   group_cells ts xs (ts ! j) = [xs ! j]"
proof (induction ts arbitrary: xs j)
  case Nil
  then show ?case by simp
next
  case (Cons t ts)
  then obtain x xs' where xs: "xs = x # xs'" by (cases xs) auto
  show ?case
  proof (cases j)
    case 0
    then show ?thesis using Cons.prems xs by (simp add: group_cells_def filter_zip_absent)
  next
    case (Suc j')
    then have "ts ! j' \<noteq> t" using Cons.prems by auto
    moreover have "group_cells ts xs' (ts ! j') = [xs' ! j']"
      using Cons.prems xs Suc by (intro Cons.IH) auto
    ultimately show ?thesis using xs Suc by (simp add: group_cells_def)
  qed
qed

lemma agg_id_NumCol:
  assumes "distinct ts" "length ts = length xs" "None \<notin> set xs"
  shows "map (\<lambda>k. agg_mean (group_cells ts xs k)) ts = xs"
proof (rule nth_equalityI)
  show "length (map (\<lambda>k. agg_mean (group_cells ts xs k)) ts) = length xs"
    using assms(2) by simp
  fix j assume "j < length (map (\<lambda>k. agg_mean (group_cells ts xs k)) ts)"
  then have j: "j < length ts" by simp
  then obtain v where v: "xs ! j = Some v"
    using assms(2,3) by (metis not_None_eq nth_mem)
  show "map (\<lambda>k. agg_mean (group_cells ts xs k)) ts ! j = xs ! j"
    using j by (simp add: group_cells_distinct [OF assms(1,2) j] v agg_mean_def mean_def)
qed

lemma agg_id_ObjCol:
  assumes "distinct ts" "length ts = length xs" "None \<notin> set xs"
  shows "map (\<lambda>k. agg_last (group_cells ts xs k)) ts = xs"
proof (rule nth_equalityI)
  show "length (map (\<lambda>k. agg_last (group_cells ts xs k)) ts) = length xs"
    using assms(2) by simp
  fix j assume "j < length (map (\<lambda>k. agg_last (group_cells ts xs k)) ts)"
  then have j: "j < length ts" by simp
  then obtain v where v: "xs ! j = Some v"
    using assms(2,3) by (metis not_None_eq nth_mem)
  show "map (\<lambda>k. agg_last (group_cells ts xs k)) ts ! j = xs ! j"
    using j by (simp add: group_cells_distinct [OF assms(1,2) j] v agg_last_def)
qed

lemma reindex_cells_id:
  assumes "distinct ts" "length ts = length xs"
  shows "reindex_cells ts xs ts = xs"
proof (rule nth_equalityI)
  show "length (reindex_cells ts xs ts) = length xs" using assms(2) by simp
  fix j assume "j < length (reindex_cells ts xs ts)"
  then have j: "j < length xs" using assms(2) by simp
  have "map_of (zip ts xs) (ts ! j) = Some (xs ! j)"
    using assms(2,1) j by (rule map_of_zip_nth)
  then show "reindex_cells ts xs ts ! j = xs ! j"
    using j assms(2) by (simp add: reindex_cells_def)
qed

lemma ffill_from_id: "None \<notin> set xs \<Longrightarrow> ffill_from p xs = xs"
  by (induction p xs rule: ffill_from.induct) auto

lemma interpolate_id:
  assumes "None \<notin> set xs" "length idx = length xs"
  shows "interpolate idx xs = xs"
proof -
  have "map (\<lambda>(t, x). case x of Some v \<Rightarrow> Some v | None \<Rightarrow> g t) (zip idx xs) = xs" for g
    using assms
  proof (induction idx arbitrary: xs)
    case Nil
    then show ?case by simp
  next
    case (Cons t idx)
    then obtain x xs' where "xs = x # xs'" by (cases xs) auto
    then show ?case using Cons by (cases x) auto
  qed
  then show ?thesis by (simp add: interpolate_def Let_def)
qed

lemma fill_col_id:
  assumes "col_complete col" "col_len col = length idx"
  shows "fill_col idx col = col"
proof (cases col)
  case (NumCol xs)
  then show ?thesis
    using assms by (simp add: interpolate_id ffill_def bfill_def ffill_from_id)
next
  case (ObjCol xs)
  then show ?thesis using assms by simp
qed

lemma map_nth_upt: "length xs = n \<Longrightarrow> map ((!) xs) [0..<n] = xs"
  by (metis map_nth)

lemma norm_col_id:
  assumes "contiguous (index h)" "index h \<noteq> []" "hour_ns dvd hd (index h)"
    and "col_complete col" "col_len col = length (index h)"
  shows "norm_col (as_raw h) col = col"
proof -
  note n = norm_as_raw [OF assms(1-3)]
  note d = contiguous_sorted_distinct(2) [OF assms(1)]
  have t: "take_rows [0..<length (index h)] col = col"
    using assms(5) by (cases col) (simp_all add: map_nth_upt)
  have a: "agg (index h) (index h) col = col"
    using assms(4,5) d by (cases col) (simp_all add: agg_id_NumCol agg_id_ObjCol)
  have r: "reindex_col (index h) (index h) col = col"
    using assms(5) d by (cases col) (simp_all add: reindex_cells_id)
  show ?thesis
    by (simp add: norm_col_def n t a r fill_col_id [OF assms(4)] assms(5))
qed

text \<open>
  On a frame with a contiguous index of whole hours and no missing cell every group has
  one row, every hour is present and nothing is filled: the pipeline returns the index
  and the cells as they are, the numeric columns listed first. (The numeric cells are
  the float cells of the model; the mean of one double is that double.)
\<close>

lemma normalize_as_raw:
  assumes c: "contiguous (index h)" "index h \<noteq> []" "hour_ns dvd hd (index h)"
    and w: "list_all (\<lambda>(c, col). col_len col = length (index h)) (cols h)"
    and k: "list_all (\<lambda>(c, col). col_complete col) (cols h)"
    and t: "target \<in> fst ` set (cols h)"
  shows "normalize_frame target (as_raw h) = Inr (h\<lparr>cols := num_first (cols h)\<rparr>)"
proof -
  note n = norm_as_raw [OF c]
  have "map (\<lambda>(c, col). (c, norm_col (as_raw h) col)) (num_first (cols h)) = num_first (cols h)"
  proof (rule map_idI)
    fix p assume "p \<in> set (num_first (cols h))"
    then have p: "p \<in> set (cols h)" by (simp add: set_num_first)
    obtain a col where ac: "p = (a, col)" by (cases p)
    have "norm_col (as_raw h) col = col"
      using p ac w k by (intro norm_col_id [OF c]) (auto simp: list_all_iff)
    then show "(case p of (c, col) \<Rightarrow> (c, norm_col (as_raw h) col)) = p"
      by (simp add: ac)
  qed
  moreover have "rcols (as_raw h) = cols h" by (simp add: as_raw_def)
  moreover have "cols h \<noteq> []" using t by auto
  ultimately show ?thesis
    using t c(2) by (simp add: normalize_eq n)
qed

section \<open>Assigning columns\<close>

lemma set_update_subset: "set (AList.update k v al) \<subseteq> insert (k, v) (set al)"
  by (induction al) auto

lemma update_mem: "(k, v) \<in> set (AList.update k v al)"
  by (induction al) auto

lemma update_other_mem: "k' \<noteq> k \<Longrightarrow> (k, v) \<in> set al \<Longrightarrow> (k, v) \<in> set (AList.update k' v' al)"
  by (induction al) auto

lemma set_cols_Nil [simp]: "set_cols [] cs = cs"
  by (simp add: set_cols_def)

lemma set_cols_Cons [simp]: "set_cols ((k, v) # kvs) cs = set_cols kvs (AList.update k v cs)"
  by (simp add: set_cols_def)

lemma set_cols_append: "set_cols (kvs @ kvs') cs = set_cols kvs' (set_cols kvs cs)"
  by (simp add: set_cols_def)

lemma set_set_cols_subset: "set (set_cols kvs cs) \<subseteq> set kvs \<union> set cs"
proof (induction kvs arbitrary: cs)
  case Nil
  then show ?case by simp
next
  case (Cons kv kvs)
  obtain k v where kv: "kv = (k, v)" by (cases kv)
  have "set (set_cols kvs (AList.update k v cs)) \<subseteq> set kvs \<union> set (AList.update k v cs)"
    by (rule Cons.IH)
  then show ?case using set_update_subset [of k v cs] by (auto simp: kv)
qed

lemma set_cols_keeps:
  "(k, v) \<in> set cs \<Longrightarrow> k \<notin> fst ` set kvs \<Longrightarrow> (k, v) \<in> set (set_cols kvs cs)"
proof (induction kvs arbitrary: cs)
  case Nil
  then show ?case by simp
next
  case (Cons kv kvs)
  obtain k' v' where kv: "kv = (k', v')" by (cases kv)
  have "(k, v) \<in> set (AList.update k' v' cs)"
    using Cons.prems by (intro update_other_mem) (auto simp: kv)
  then show ?case using Cons.prems by (simp add: kv Cons.IH)
qed

lemma set_cols_last_wins:
  "k \<notin> fst ` set post \<Longrightarrow> (k, v) \<in> set (set_cols (pre @ (k, v) # post) cs)"
  by (simp add: set_cols_append set_cols_keeps update_mem)

lemma map_of_set_cols_other:
  "k \<notin> fst ` set kvs \<Longrightarrow> map_of (set_cols kvs cs) k = map_of cs k"
proof (induction kvs arbitrary: cs)
  case Nil
  then show ?case by simp
next
  case (Cons kv kvs)
  obtain k' v' where kv: "kv = (k', v')" by (cases kv)
  show ?case using Cons.prems by (simp add: kv Cons.IH update_conv')
qed

section \<open>The loops of the feature builder\<close>

lemma add_time_features_eq:
  "add_time_features f = f\<lparr>cols := set_cols (time_cols (index f)) (cols f)\<rparr>"
  by (simp add: add_time_features_def set_col_def time_cols_def Let_def)

lemma for_each_lags:
  assumes "map_of (cols f) target = Some (NumCol xs)"
  shows "for_each (lag_step target) lags f =
    Inr (f\<lparr>cols := set_cols (lag_cols target xs lags) (cols f)\<rparr>)"
  using assms
proof (induction lags arbitrary: f)
  case Nil
  then show ?case by (simp add: lag_cols_def)
next
  case (Cons L lags)
  let ?f = "set_col f (target @ ''_lag'' @ str_nat L) (NumCol (shift_cells L xs))"
  have s: "lag_step target L f = Inr ?f"
    using Cons.prems by (simp add: lag_step_def)
  have "map_of (cols ?f) target = Some (NumCol xs)"
    using Cons.prems by (simp add: set_col_def update_conv')
  then have "for_each (lag_step target) lags ?f =
      Inr (?f\<lparr>cols := set_cols (lag_cols target xs lags) (cols ?f)\<rparr>)"
    by (rule Cons.IH)
  then show ?case by (simp add: s lag_cols_def set_col_def)
qed

lemma roll_step_eq:
  assumes "map_of (cols f) target = Some (NumCol xs)" "0 < w"
  shows "roll_step target w f =
    Inr (f\<lparr>cols := set_cols (roll_cols target xs [w]) (cols f)\<rparr>)"
proof -
  let ?m = "max 1 (w div 2)"
  let ?f = "set_col f (target @ ''_rollmean'' @ str_nat w) (NumCol (rolling_mean w ?m xs))"
  have m: "\<not> w < ?m" using assms(2) by (simp add: max_def) arith
  have a: "rolling_of rolling_mean ''_rollmean'' target w f = Inr ?f"
    using assms(1) m by (simp add: rolling_of_def Let_def)
  have "map_of (cols ?f) target = Some (NumCol xs)"
    using assms(1) by (simp add: set_col_def update_conv')
  then have b: "rolling_of rolling_std ''_rollstd'' target w ?f =
      Inr (set_col ?f (target @ ''_rollstd'' @ str_nat w) (NumCol (rolling_std w ?m xs)))"
    using m by (simp add: rolling_of_def Let_def)
  show ?thesis
    by (simp only: roll_step_def a sum.case b) (simp add: roll_cols_def set_col_def)
qed

lemma map_of_roll_cols_target:
  "map_of cs target = Some col \<Longrightarrow> map_of (set_cols (roll_cols target xs rolls) cs) target = Some col"
  by (subst map_of_set_cols_other) (auto simp: roll_cols_def)

lemma for_each_rolls:
  assumes "map_of (cols f) target = Some (NumCol xs)" "\<forall>w \<in> set rolls. 0 < w"
  shows "for_each (roll_step target) rolls f =
    Inr (f\<lparr>cols := set_cols (roll_cols target xs rolls) (cols f)\<rparr>)"
  using assms
proof (induction rolls arbitrary: f)
  case Nil
  then show ?case by (simp add: roll_cols_def)
next
  case (Cons w rolls)
  let ?f = "f\<lparr>cols := set_cols (roll_cols target xs [w]) (cols f)\<rparr>"
  have s: "roll_step target w f = Inr ?f"
    using Cons.prems by (intro roll_step_eq) auto
  have "map_of (cols ?f) target = Some (NumCol xs)"
    using Cons.prems(1) by (simp add: map_of_roll_cols_target)
  then have "for_each (roll_step target) rolls ?f =
      Inr (?f\<lparr>cols := set_cols (roll_cols target xs rolls) (cols ?f)\<rparr>)"
    using Cons.prems(2) by (intro Cons.IH) auto
  moreover have "roll_cols target xs (w # rolls) = roll_cols target xs [w] @ roll_cols target xs rolls"
    by (simp add: roll_cols_def)
  ultimately show ?case by (simp add: s set_cols_append)
qed

lemma map_of_lag_cols_target:
  "map_of cs target = Some col \<Longrightarrow> map_of (set_cols (lag_cols target xs lags) cs) target = Some col"
  by (subst map_of_set_cols_other) (auto simp: lag_cols_def)

lemma add_lags_rolls_eq:
  assumes "map_of (cols f) target = Some (NumCol xs)" "\<forall>w \<in> set rolls. 0 < w"
  shows "add_lags_rolls f target lags rolls =
    Inr (f\<lparr>cols := set_cols (lag_cols target xs lags @ roll_cols target xs rolls) (cols f)\<rparr>)"
proof -
  let ?f = "f\<lparr>cols := set_cols (lag_cols target xs lags) (cols f)\<rparr>"
  have "map_of (cols ?f) target = Some (NumCol xs)"
    using assms(1) by (simp add: map_of_lag_cols_target)
  then have "for_each (roll_step target) rolls ?f =
      Inr (?f\<lparr>cols := set_cols (roll_cols target xs rolls) (cols ?f)\<rparr>)"
    using assms(2) by (rule for_each_rolls)
  then show ?thesis
    by (simp add: add_lags_rolls_def for_each_lags [OF assms(1)] set_cols_append)
qed

section \<open>Cells of the feature columns\<close>

lemma length_shift_cells [simp]: "length (shift_cells L xs) = length xs"
  by (simp add: shift_cells_def)

lemma nth_shift_cells:
  "i < length xs \<Longrightarrow> shift_cells L xs ! i = (if i < L then None else xs ! (i - L))"
  by (auto simp: shift_cells_def nth_append min_def)

lemma length_valid_values_complete: "None \<notin> set ys \<Longrightarrow> length (valid_values ys) = length ys"
  by (induction ys rule: valid_values.induct) auto

lemma window_complete: "None \<notin> set xs \<Longrightarrow> None \<notin> set (window w xs i)"
  unfolding window_def by (meson in_set_dropD in_set_takeD)

lemma length_window: "i < length xs \<Longrightarrow> length (window w xs i) = min (Suc i) w"
  by (auto simp: window_def min_def)

lemma length_rolling_mean [simp]: "length (rolling_mean w m xs) = length xs"
  by (simp add: rolling_mean_def)

lemma length_rolling_std [simp]: "length (rolling_std w m xs) = length xs"
  by (simp add: rolling_std_def)

lemma nth_rolling_mean_complete:
  assumes "None \<notin> set xs" "i < length xs" "m \<le> min (Suc i) w" "0 < w"
  shows "rolling_mean w m xs ! i \<noteq> None"
proof -
  have l: "length (valid_values (window w xs i)) = min (Suc i) w"
    using assms(1,2) by (simp add: length_valid_values_complete window_complete length_window)
  then have "valid_values (window w xs i) \<noteq> []"
    using assms(4) by auto
  then show ?thesis using assms l by (simp add: rolling_mean_def Let_def)
qed

lemma nth_rolling_std_complete:
  assumes "None \<notin> set xs" "i < length xs" "m \<le> min (Suc i) w" "1 < min (Suc i) w"
  shows "rolling_std w m xs ! i \<noteq> None"
proof -
  have "length (valid_values (window w xs i)) = min (Suc i) w"
    using assms(1,2) by (simp add: length_valid_values_complete window_complete length_window)
  then show ?thesis using assms by (simp add: rolling_std_def Let_def)
qed

lemma nth_complete: "None \<notin> set xs \<Longrightarrow> i < length xs \<Longrightarrow> \<exists>y. xs ! i = Some y"
  by (metis nth_mem not_None_eq)

lemma ok_from_complete: "col_complete col \<Longrightarrow> col_len col = n \<Longrightarrow> ok_from k n col"
  by (cases col) (auto simp: ok_from_def intro: nth_complete)

lemma time_cols_ok: "(c, col) \<in> set (time_cols idx) \<Longrightarrow> ok_from k (length idx) col"
  by (auto simp: time_cols_def int_col_def ok_from_def)

lemma lag_cols_ok:
  assumes "None \<notin> set xs" "\<forall>L \<in> set lags. L \<le> k" "(c, col) \<in> set (lag_cols target xs lags)"
  shows "ok_from k (length xs) col"
proof -
  from assms(3) obtain L where L: "L \<in> set lags" "col = NumCol (shift_cells L xs)"
    by (auto simp: lag_cols_def)
  have "shift_cells L xs ! i \<noteq> None" if "k \<le> i" "i < length xs" for i
  proof -
    have "L \<le> i" using that(1) assms(2) L(1) by force
    then have "shift_cells L xs ! i = xs ! (i - L)" using that(2) by (simp add: nth_shift_cells)
    moreover have "xs ! (i - L) \<in> set xs" using that(2) by simp
    ultimately show ?thesis using assms(1) by metis
  qed
  then show ?thesis by (simp add: L(2) ok_from_def)
qed

lemma roll_cols_ok:
  assumes "None \<notin> set xs" "\<forall>w \<in> set rolls. 2 \<le> w \<and> w \<le> Suc k"
    "(c, col) \<in> set (roll_cols target xs rolls)"
  shows "ok_from k (length xs) col"
proof -
  from assms(3) obtain w where w: "w \<in> set rolls"
    "col = NumCol (rolling_mean w (max 1 (w div 2)) xs) \<or>
     col = NumCol (rolling_std w (max 1 (w div 2)) xs)"
    by (auto simp: roll_cols_def)
  then have b: "2 \<le> w" "w \<le> Suc k" using assms(2) by auto
  have "rolling_mean w (max 1 (w div 2)) xs ! i \<noteq> None \<and>
        rolling_std w (max 1 (w div 2)) xs ! i \<noteq> None" if "k \<le> i" "i < length xs" for i
  proof -
    have m: "min (Suc i) w = w" using that(1) b(2) by simp
    have "max 1 (w div 2) \<le> w" using b(1) by (simp add: max_def)
    then show ?thesis
      using assms(1) that(2) b(1) m
      by (simp add: nth_rolling_mean_complete nth_rolling_std_complete)
  qed
  then show ?thesis using w(2) by (auto simp: ok_from_def)
qed

section \<open>Rows kept by dropna\<close>

lemma filter_le_upt: "filter (\<lambda>i. k \<le> i) [0..<n] = [k..<n]"
proof (induction n)
  case 0
  then show ?case by simp
next
  case (Suc n)
  then show ?case by (cases "k \<le> n") (simp_all add: upt_Suc_append)
qed

lemma map_nth_drop: "map ((!) xs) [k..<length xs] = drop k xs"
  by (rule nth_equalityI) simp_all

lemma dropna_index_empty:
  assumes "\<forall>i < length (index f). \<not> complete_row (cols f) i"
  shows "index (dropna f) = []"
proof -
  have "filter (complete_row (cols f)) [0..<length (index f)] = []"
    using assms by (simp add: filter_empty_conv)
  then show ?thesis by (simp add: dropna_def Let_def)
qed

lemma dropna_index_drop:
  assumes "\<forall>i < length (index f). complete_row (cols f) i \<longleftrightarrow> k \<le> i"
  shows "index (dropna f) = drop k (index f)"
proof -
  have "filter (complete_row (cols f)) [0..<length (index f)] =
      filter (\<lambda>i. k \<le> i) [0..<length (index f)]"
    using assms by (intro filter_cong) auto
  then show ?thesis by (simp add: dropna_def Let_def filter_le_upt map_nth_drop)
qed

section \<open>The feature view\<close>

lemma target_after_time_features:
  assumes "map_of (cols h) target = Some (NumCol xs)" "length xs = length (index h)"
  shows "\<exists>xs'. map_of (set_cols (time_cols (index h)) (cols h)) target = Some (NumCol xs') \<and>
    length xs' = length (index h) \<and> (None \<notin> set xs \<longrightarrow> None \<notin> set xs')"
  using assms by (auto simp: time_cols_def update_conv' int_col_def)

lemma build_feature_view_eq:
  assumes "map_of (set_cols (time_cols (index h)) (cols h)) target = Some (NumCol xs)"
  shows "build_feature_view target h =
    Inr (dropna (before_dropna target xs h),
         filter (\<lambda>c. c \<noteq> target) (map fst (cols (dropna (before_dropna target xs h)))))"
proof -
  have "map_of (cols (add_time_features h)) target = Some (NumCol xs)"
    using assms by (simp add: add_time_features_eq)
  moreover have "\<forall>w \<in> set default_rolls. 0 < w"
    by (simp add: default_rolls_def)
  ultimately have "add_lags_rolls (add_time_features h) target default_lags default_rolls =
      Inr (before_dropna target xs h)"
    by (simp add: add_lags_rolls_eq before_dropna_def feat_cols_def add_time_features_eq)
  then show ?thesis by (simp add: build_feature_view_def Let_def)
qed

lemma feature_rows_eq:
  assumes "map_of (set_cols (time_cols (index h)) (cols h)) target = Some (NumCol xs)"
  shows "feature_rows target h = Inr (index (dropna (before_dropna target xs h)))"
  by (simp add: feature_rows_def build_feature_view_eq [OF assms])

lemma index_before_dropna [simp]: "index (before_dropna target xs h) = index h"
  by (simp add: before_dropna_def)

lemma lag24_present:
  "(target @ ''_lag'' @ str_nat 24, NumCol (shift_cells 24 xs))
     \<in> set (cols (before_dropna target xs h))"
proof -
  have "lag_cols target xs default_lags =
      lag_cols target xs [1, 2, 3, 6, 12] @
      [(target @ ''_lag'' @ str_nat 24, NumCol (shift_cells 24 xs))]"
    by (simp add: lag_cols_def default_lags_def)
  moreover have "target @ ''_lag'' @ str_nat 24
      \<notin> fst ` set (roll_cols target xs default_rolls)"
    by (auto simp: roll_cols_def)
  ultimately show ?thesis
    using set_cols_last_wins [of "target @ ''_lag'' @ str_nat 24"
        "roll_cols target xs default_rolls" "NumCol (shift_cells 24 xs)"
        "lag_cols target xs [1, 2, 3, 6, 12]" "set_cols (time_cols (index h)) (cols h)"]
    by (simp add: before_dropna_def feat_cols_def)
qed

lemma incomplete_before_24:
  assumes "length xs = length (index h)" "i < length (index h)" "i < 24"
  shows "\<not> complete_row (cols (before_dropna target xs h)) i"
proof -
  have n: "\<not> cell_ok (NumCol (shift_cells 24 xs)) i"
    using assms by (simp add: nth_shift_cells)
  show ?thesis
  proof
    assume "complete_row (cols (before_dropna target xs h)) i"
    then have "\<forall>p \<in> set (cols (before_dropna target xs h)). cell_ok (snd p) i"
      by (auto simp: complete_row_def list_all_iff)
    then have "cell_ok (NumCol (shift_cells 24 xs)) i"
      using lag24_present [of target xs h] by force
    with n show False by contradiction
  qed
qed

lemma short_series_no_rows:
  assumes "map_of (cols h) target = Some (NumCol xs)" "length xs = length (index h)"
    and "length (index h) \<le> 24"
  shows "feature_rows target h = Inr []"
proof -
  obtain xs' where x: "map_of (set_cols (time_cols (index h)) (cols h)) target = Some (NumCol xs')"
    "length xs' = length (index h)"
    using target_after_time_features [OF assms(1,2)] by blast
  have "\<not> complete_row (cols (before_dropna target xs' h)) i" if "i < length (index h)" for i
    using incomplete_before_24 [OF x(2) that] assms(3) that by simp
  then have "\<forall>i < length (index (before_dropna target xs' h)).
      \<not> complete_row (cols (before_dropna target xs' h)) i"
    by simp
  then have "index (dropna (before_dropna target xs' h)) = []"
    by (rule dropna_index_empty)
  then show ?thesis by (simp add: feature_rows_eq [OF x(1)])
qed

lemma cols_before_dropna_subset:
  "set (cols (before_dropna target xs h)) \<subseteq>
    set (feat_cols target xs) \<union> set (time_cols (index h)) \<union> set (cols h)"
  using set_set_cols_subset [of "feat_cols target xs" "set_cols (time_cols (index h)) (cols h)"]
    set_set_cols_subset [of "time_cols (index h)" "cols h"]
  by (auto simp: before_dropna_def)

lemma complete_from_24:
  assumes "list_all (\<lambda>(c, col). col_len col = length (index h)) (cols h)"
    and "list_all (\<lambda>(c, col). col_complete col) (cols h)"
    and "None \<notin> set xs" "length xs = length (index h)"
    and "24 \<le> i" "i < length (index h)"
  shows "complete_row (cols (before_dropna target xs h)) i"
proof -
  have "cell_ok col i" if mem: "(c, col) \<in> set (cols (before_dropna target xs h))" for c col
  proof -
    have "ok_from 24 (length (index h)) col"
    proof -
      consider "(c, col) \<in> set (lag_cols target xs default_lags)"
        | "(c, col) \<in> set (roll_cols target xs default_rolls)"
        | "(c, col) \<in> set (time_cols (index h))"
        | "(c, col) \<in> set (cols h)"
        using mem cols_before_dropna_subset [of target xs h] by (auto simp: feat_cols_def)
      then show ?thesis
      proof cases
        case 1
        then show ?thesis
          using lag_cols_ok [of xs default_lags 24 c col target] assms(3,4)
          by (simp add: default_lags_def)
      next
        case 2
        then show ?thesis
          using roll_cols_ok [of xs default_rolls 24 c col target] assms(3,4)
          by (simp add: default_rolls_def)
      next
        case 3
        then show ?thesis by (rule time_cols_ok)
      next
        case 4
        then show ?thesis
          using assms(1,2) by (intro ok_from_complete) (auto simp: list_all_iff)
      qed
    qed
    then show ?thesis using assms(5,6) by (simp add: ok_from_def)
  qed
  then show ?thesis by (auto simp: complete_row_def list_all_iff)
qed

text \<open>
  C4, as amended: for an hourly series in which no cell of any column is missing and
  the target is a numeric column whose values are in range (finite, of magnitude at
  most \<open>10 ^ 100\<close>), the feature builder with the default lags and windows drops
  exactly the first 24 rows: the rows it returns are the rows of the series from the
  25th on, \<open>N - 24\<close> of them. The range is what keeps the rolling mean and standard
  deviation of doubles from overflowing to NaN; in the exact arithmetic of the model
  they are defined as soon as the window holds enough observations.
\<close>

theorem feature_rows_warm_up:
  assumes "wf_frame h"
    and "all_cols col_complete (cols h)"
    and "map_of (cols h) target = Some (NumCol xs)"
    and "col_in_range (NumCol xs)"
  shows "feature_rows target h = Inr (drop 24 (index h)) \<and>
    length (drop 24 (index h)) = length (index h) - 24"
proof -
  have w: "list_all (\<lambda>(c, col). col_len col = length (index h)) (cols h)"
    using assms(1) by (simp add: wf_frame_def)
  have k: "list_all (\<lambda>(c, col). col_complete col) (cols h)"
    using assms(2) by (simp add: all_cols_def)
  have m: "(target, NumCol xs) \<in> set (cols h)"
    using assms(3) by (rule map_of_SomeD)
  then have l: "length xs = length (index h)" and c: "None \<notin> set xs"
    using w k by (auto simp: list_all_iff)
  obtain xs' where x: "map_of (set_cols (time_cols (index h)) (cols h)) target = Some (NumCol xs')"
    "length xs' = length (index h)" "None \<notin> set xs'"
    using target_after_time_features [OF assms(3) l] c by blast
  have "\<forall>i < length (index (before_dropna target xs' h)).
      complete_row (cols (before_dropna target xs' h)) i \<longleftrightarrow> 24 \<le> i"
    using incomplete_before_24 [OF x(2)] complete_from_24 [OF w k x(3,2)]
    by (metis index_before_dropna not_le)
  then have "index (dropna (before_dropna target xs' h)) = drop 24 (index h)"
    using dropna_index_drop [of "before_dropna target xs' h" 24] by simp
  then show ?thesis by (simp add: feature_rows_eq [OF x(1)])
qed

section \<open>The example series\<close>

lemma target_values_props [simp]:
  "length (target_values n) = n" "None \<notin> set (target_values n)"
  by (auto simp: target_values_def)

lemma target_values_in_range: "n \<le> 1000 \<Longrightarrow> col_in_range (NumCol (target_values n))"
proof -
  assume n: "n \<le> 1000"
  have "(1100::real) \<le> 10 ^ 100" by simp
  moreover have "\<bar>100 + real k\<bar> \<le> 1100" if "k < n" for k
    using that n by simp
  ultimately have "\<bar>100 + real k\<bar> \<le> fl_bound" if "k < n" for k
    using that unfolding fl_bound_def by (meson order_trans)
  then show ?thesis
    by (simp add: target_values_def list_all_iff in_range_def)
qed

lemma series_props:
  "wf_frame (series n)" "all_cols col_complete (cols (series n))"
  "map_of (cols (series n)) ''PM2.5'' = Some (NumCol (target_values n))"
  "length (index (series n)) = n"
  by (simp_all add: series_def wf_frame_def all_cols_def)

lemma series_no2_props:
  "wf_frame (series_no2 n)"
  "map_of (cols (series_no2 n)) ''PM2.5'' = Some (NumCol (target_values n))"
  "length (index (series_no2 n)) = n"
  by (simp_all add: series_no2_def wf_frame_def)

theorem feature_rows_warm_up_witness:
  "wf_frame (series 26) \<and> all_cols col_complete (cols (series 26)) \<and>
   map_of (cols (series 26)) ''PM2.5'' = Some (NumCol (target_values 26)) \<and>
   col_in_range (NumCol (target_values 26)) \<and>
   length (index (series 26)) = 26 \<and>
   feature_rows ''PM2.5'' (series 26) = Inr [24 * hour_ns, 25 * hour_ns]"
proof -
  have d: "drop 24 (index (series 26)) = [24 * hour_ns, 25 * hour_ns]"
    by (simp add: series_def drop_map upt_rec)
  have r: "col_in_range (NumCol (target_values 26))"
    by (rule target_values_in_range) simp
  show ?thesis
    using feature_rows_warm_up [OF series_props(1,2,3) r] series_props [of 26] d r
    by simp
qed

lemma missing_col_no_rows:
  assumes "map_of (set_cols (time_cols (index h)) (cols h)) target = Some (NumCol xs)"
    and "(c, col) \<in> set (cols h)"
    and "c \<notin> fst ` set (time_cols (index h))" "c \<notin> fst ` set (feat_cols target xs)"
    and "\<forall>i < length (index h). \<not> cell_ok col i"
  shows "feature_rows target h = Inr []"
proof -
  have m: "(c, col) \<in> set (cols (before_dropna target xs h))"
    using assms(2,3,4) by (simp add: before_dropna_def set_cols_keeps)
  have "\<not> complete_row (cols (before_dropna target xs h)) i" if "i < length (index h)" for i
  proof
    assume "complete_row (cols (before_dropna target xs h)) i"
    then have "\<forall>p \<in> set (cols (before_dropna target xs h)). cell_ok (snd p) i"
      by (auto simp: complete_row_def list_all_iff)
    then have "cell_ok col i" using m by force
    then show False using assms(5) that by simp
  qed
  then have "\<forall>i < length (index (before_dropna target xs h)).
      \<not> complete_row (cols (before_dropna target xs h)) i"
    by simp
  then have "index (dropna (before_dropna target xs h)) = []"
    by (rule dropna_index_empty)
  then show ?thesis by (simp add: feature_rows_eq [OF assms(1)])
qed

lemma series_no2_no_rows: "feature_rows ''PM2.5'' (series_no2 n) = Inr []"
proof (rule missing_col_no_rows)
  show "map_of (set_cols (time_cols (index (series_no2 n))) (cols (series_no2 n))) ''PM2.5'' =
      Some (NumCol (target_values n))"
    by (subst map_of_set_cols_other) (simp_all add: time_cols_def series_no2_def)
  show "(''NO2'', NumCol (replicate n None)) \<in> set (cols (series_no2 n))"
    by (simp add: series_no2_def)
  show "''NO2'' \<notin> fst ` set (time_cols (index (series_no2 n)))"
    by (simp add: time_cols_def)
  show "''NO2'' \<notin> fst ` set (feat_cols ''PM2.5'' (target_values n))"
    by (simp add: feat_cols_def lag_cols_def roll_cols_def default_lags_def default_rolls_def)
  show "\<forall>i < length (index (series_no2 n)). \<not> cell_ok (NumCol (replicate n None)) i"
    by (simp add: series_no2_def)
qed

text \<open>
  C4 as stated fails: in \<open>series_no2 25\<close> the target column has 25 values and none is
  missing, but the column \<^verbatim>\<open>NO2\<close> has no value, \<^verbatim>\<open>dropna()\<close> looks at every column,
  and no row is returned where the claim promises \<open>25 - 24 = 1\<close>.
\<close>

theorem feature_rows_other_column_counterexample:
  "wf_frame (series_no2 25) \<and>
   map_of (cols (series_no2 25)) ''PM2.5'' = Some (NumCol (target_values 25)) \<and>
   None \<notin> set (target_values 25) \<and>
   length (index (series_no2 25)) = 25 \<and>
   feature_rows ''PM2.5'' (series_no2 25) = Inr [] \<and>
   length (drop 24 (index (series_no2 25))) = 1"
  using series_no2_props [of 25] series_no2_no_rows [of 25] by simp

section \<open>The prediction handler\<close>

lemma select_cols_ok: "set feats \<subseteq> fst ` set cs \<Longrightarrow> \<exists>X. select_cols cs feats = Inr X"
proof (induction feats)
  case Nil
  then show ?case by simp
next
  case (Cons c feats)
  then obtain col where "map_of cs c = Some col"
    by (metis list.set_intros(1) map_of_eq_None_iff not_None_eq subsetD)
  moreover obtain X where "select_cols cs feats = Inr X"
    using Cons by auto
  ultimately show ?case by simp
qed

lemma build_feature_view_feats:
  "build_feature_view target h = Inr (Xy, feats) \<Longrightarrow>
   feats = filter (\<lambda>c. c \<noteq> target) (map fst (cols Xy))"
  by (auto simp: build_feature_view_def Let_def split: sum.splits)

lemma api_predict_cases:
  assumes "build_feature_view target dfh = Inr (Xy, feats)"
  shows "(index Xy = [] \<longrightarrow> api_predict model target dfh = Inl IndexError) \<and>
    (index Xy \<noteq> [] \<longrightarrow> (\<exists>r. api_predict model target dfh = Inr r))"
proof -
  have "set feats \<subseteq> fst ` set (cols Xy)"
    using build_feature_view_feats [OF assms] by auto
  then obtain X where "select_cols (cols Xy) feats = Inr X"
    using select_cols_ok by blast
  then show ?thesis
    by (simp add: api_predict_def assms Let_def split: prod.splits)
qed

text \<open>
  C1, as amended: when the feature builder returns no row, the handler ends in the
  \<^verbatim>\<open>IndexError\<close> that \<^verbatim>\<open>.iloc[[-1]]\<close> raises on an empty frame, which nothing in the
  program catches; the model is not called and no prediction is returned.
\<close>

theorem api_predict_zero_rows:
  assumes "feature_rows target dfh = Inr []"
  shows "api_predict model target dfh = Inl IndexError"
proof -
  from assms obtain Xy feats where "build_feature_view target dfh = Inr (Xy, feats)" "index Xy = []"
    by (auto simp: feature_rows_def split: sum.splits)
  then show ?thesis using api_predict_cases by blast
qed

lemma series_short_no_rows: "n \<le> 24 \<Longrightarrow> feature_rows ''PM2.5'' (series n) = Inr []"
  using short_series_no_rows [OF series_props(3), of n] by (simp add: series_props)

theorem api_predict_zero_rows_witness:
  "feature_rows ''PM2.5'' (series 3) = Inr [] \<and>
   api_predict (const_model 12) ''PM2.5'' (series 3) = Inl IndexError"
proof -
  have r: "feature_rows ''PM2.5'' (series 3) = Inr []"
    by (rule series_short_no_rows) simp
  from api_predict_zero_rows [OF r] r show ?thesis by simp
qed

text \<open>
  C1 as stated fails: on the series of 10 rows no feature row is left, and the handler
  does not end in a dedicated data-unavailable error but in the \<^verbatim>\<open>IndexError\<close> of
  \<^verbatim>\<open>.iloc[[-1]]\<close>, an exception that escapes the handler.
\<close>

theorem api_predict_short_series_counterexample:
  "length (index (series 10)) = 10 \<and>
   feature_rows ''PM2.5'' (series 10) = Inr [] \<and>
   api_predict (const_model 12) ''PM2.5'' (series 10) = Inl IndexError"
proof -
  have r: "feature_rows ''PM2.5'' (series 10) = Inr []"
    by (rule series_short_no_rows) simp
  then obtain Xy feats where "build_feature_view ''PM2.5'' (series 10) = Inr (Xy, feats)"
    "index Xy = []"
    by (auto simp: feature_rows_def split: sum.splits)
  then have "api_predict (const_model 12) ''PM2.5'' (series 10) = Inl IndexError"
    using api_predict_cases by blast
  with r show ?thesis by (simp add: series_props)
qed

section \<open>The AQI score on the buckets of the table\<close>

text \<open>
  Between the concentrations that some bucket contains the score is monotone; the
  concentrations of \<open>[0, 500.4]\<close> that no bucket contains are those strictly between
  the upper bound of a bucket and the lower bound of the next, and they get the
  result of the fallback.
\<close>

lemma py_round_bounds: "\<lfloor>x\<rfloor> \<le> py_round x" "py_round x \<le> \<lfloor>x\<rfloor> + 1"
  by (simp_all add: py_round_def Let_def)

lemma py_round_mono:
  assumes "x \<le> y"
  shows "py_round x \<le> py_round y"
proof (cases "\<lfloor>x\<rfloor> = \<lfloor>y\<rfloor>")
  case True
  have "x - of_int \<lfloor>x\<rfloor> \<le> y - of_int \<lfloor>y\<rfloor>" using assms True by simp
  then show ?thesis using True by (auto simp: py_round_def Let_def)
next
  case False
  then have "\<lfloor>x\<rfloor> + 1 \<le> \<lfloor>y\<rfloor>"
    using assms floor_mono [of x y] by linarith
  then show ?thesis
    using py_round_bounds(2) [of x] py_round_bounds(1) [of y] by linarith
qed

lemma score_Cons:
  "score ((Cl, Ch, Il, Ih, txt, cls) # bs) ug =
    (if Cl \<le> ug \<and> ug \<le> Ch
     then py_round (of_int (Ih - Il) / (Ch - Cl) * (ug - Cl) + of_int Il)
     else score bs ug)"
  by (simp add: score_def)

lemma bucket_line_bounds:
  fixes Cl Ch ug :: real
  assumes "Cl < Ch" "Il \<le> Ih" "Cl \<le> ug" "ug \<le> Ch"
  shows "of_int Il \<le> of_int (Ih - Il) / (Ch - Cl) * (ug - Cl) + of_int Il"
    and "of_int (Ih - Il) / (Ch - Cl) * (ug - Cl) + of_int Il \<le> of_int Ih"
proof -
  have s: "0 \<le> (of_int (Ih - Il) :: real) / (Ch - Cl)"
    using assms(1,2) by simp
  have "0 \<le> of_int (Ih - Il) / (Ch - Cl) * (ug - Cl)"
    using s assms(3) by (intro mult_nonneg_nonneg) simp_all
  then show "of_int Il \<le> of_int (Ih - Il) / (Ch - Cl) * (ug - Cl) + of_int Il"
    by simp
  have "of_int (Ih - Il) / (Ch - Cl) * (ug - Cl) \<le> of_int (Ih - Il) / (Ch - Cl) * (Ch - Cl)"
    using s assms(4) by (intro mult_left_mono) simp_all
  also have "\<dots> = of_int (Ih - Il)" using assms(1) by simp
  finally show "of_int (Ih - Il) / (Ch - Cl) * (ug - Cl) + of_int Il \<le> of_int Ih"
    by simp
qed

lemma bucket_score_bounds:
  fixes Cl Ch ug :: real
  assumes "Cl < Ch" "Il \<le> Ih" "Cl \<le> ug" "ug \<le> Ch"
  shows "Il \<le> py_round (of_int (Ih - Il) / (Ch - Cl) * (ug - Cl) + of_int Il)"
    and "py_round (of_int (Ih - Il) / (Ch - Cl) * (ug - Cl) + of_int Il) \<le> Ih"
  using py_round_mono [OF bucket_line_bounds(1) [OF assms]]
    py_round_mono [OF bucket_line_bounds(2) [OF assms]]
  by (simp_all add: py_round_of_int)

lemma below_matched:
  assumes "below c i bs" "ascending bs" "matched bs ug"
  shows "c < ug \<and> i \<le> score bs ug"
  using assms
proof (induction bs ug rule: matched.induct)
  case (1 ug)
  then show ?case by simp
next
  case (2 Cl Ch Il Ih tx cls bs ug)
  show ?case
  proof (cases "Cl \<le> ug \<and> ug \<le> Ch")
    case True
    then show ?thesis
      using "2.prems" bucket_score_bounds(1) [of Cl Ch Il Ih ug]
      by (simp add: score_Cons)
  next
    case False
    then have "matched bs ug" using "2.prems"(3) by auto
    then have "c < ug \<and> i \<le> score bs ug"
      using "2.prems"(1,2) by (intro "2.IH") simp_all
    then show ?thesis using False by (auto simp: score_Cons)
  qed
qed

lemma score_mono:
  assumes "ascending bs" "a \<le> b" "matched bs a" "matched bs b"
  shows "score bs a \<le> score bs b"
  using assms
proof (induction bs rule: ascending.induct)
  case 1
  then show ?case by simp
next
  case (2 Cl Ch Il Ih tx cls bs)
  let ?line = "\<lambda>ug. of_int (Ih - Il) / (Ch - Cl) * (ug - Cl) + of_int Il"
  from "2.prems"(1) have asc: "Cl < Ch" "Il \<le> Ih" "below Ch Ih bs" "ascending bs" by simp_all
  consider (both) "Cl \<le> a \<and> a \<le> Ch" "Cl \<le> b \<and> b \<le> Ch"
    | (first) "Cl \<le> a \<and> a \<le> Ch" "\<not> (Cl \<le> b \<and> b \<le> Ch)"
    | (second) "\<not> (Cl \<le> a \<and> a \<le> Ch)" "Cl \<le> b \<and> b \<le> Ch"
    | (neither) "\<not> (Cl \<le> a \<and> a \<le> Ch)" "\<not> (Cl \<le> b \<and> b \<le> Ch)"
    by blast
  then show ?case
  proof cases
    case both
    have "0 \<le> (of_int (Ih - Il) :: real) / (Ch - Cl)" using asc(1,2) by simp
    then have "of_int (Ih - Il) / (Ch - Cl) * (a - Cl) \<le> of_int (Ih - Il) / (Ch - Cl) * (b - Cl)"
      using "2.prems"(2) by (intro mult_left_mono) simp_all
    then have "?line a \<le> ?line b"
      by simp
    then show ?thesis using both py_round_mono by (simp add: score_Cons)
  next
    case first
    then have "matched bs b" using "2.prems"(4) by auto
    then have "Ih \<le> score bs b" using below_matched [OF asc(3,4)] by simp
    moreover have "py_round (?line a) \<le> Ih"
      using bucket_score_bounds(2) [of Cl Ch Il Ih a] first(1) asc(1,2) by blast
    ultimately show ?thesis using first by (auto simp: score_Cons)
  next
    case second
    then have "matched bs a" using "2.prems"(3) by auto
    then have "Ch < a" using below_matched [OF asc(3,4)] by simp
    then show ?thesis using second "2.prems"(2) by auto
  next
    case neither
    then have "matched bs a" "matched bs b" using "2.prems"(3,4) by auto
    then have "score bs a \<le> score bs b"
      using asc(4) "2.prems"(2) by (intro "2.IH") simp_all
    then show ?thesis using neither by (auto simp: score_Cons)
  qed
qed

lemma ascending_PM25_BREAKS: "ascending PM25_BREAKS"
  by (simp add: PM25_BREAKS_def)

lemma fst_scan_breaks: "fst (scan_breaks bs ug) = Some (score bs ug)"
  by (induction bs ug rule: scan_breaks.induct) (simp_all add: score_def)

lemma fst_pm25_to_aqi: "fst (pm25_to_aqi (Some ug)) = Some (score PM25_BREAKS ug)"
  by (simp add: pm25_to_aqi_def fst_scan_breaks)

lemma pm25_to_aqi_mono_matched:
  assumes "a \<le> b" "matched PM25_BREAKS a" "matched PM25_BREAKS b"
  shows "score PM25_BREAKS a \<le> score PM25_BREAKS b"
  using score_mono [OF ascending_PM25_BREAKS assms] .

lemma matched_PM25_BREAKS:
  "matched PM25_BREAKS ug \<longleftrightarrow>
    0 \<le> ug \<and> ug \<le> 500.4 \<and>
    \<not> (12 < ug \<and> ug < 12.1) \<and> \<not> (35.4 < ug \<and> ug < 35.5) \<and> \<not> (55.4 < ug \<and> ug < 55.5) \<and>
    \<not> (150.4 < ug \<and> ug < 150.5) \<and> \<not> (250.4 < ug \<and> ug < 250.5)"
  unfolding PM25_BREAKS_def matched.simps by argo

lemma unmatched_fallback:
  "\<not> matched bs ug \<Longrightarrow> scan_breaks bs ug = (Some 500, Txt_hazardous, ''aqi-hazardous'')"
  by (induction bs ug rule: scan_breaks.induct) auto


lemma pm25_to_aqi_unmatched:
  "\<not> matched PM25_BREAKS ug \<Longrightarrow>
   pm25_to_aqi (Some ug) = (Some 500, Txt_hazardous, ''aqi-hazardous'')"
  by (simp add: pm25_to_aqi_def unmatched_fallback)

section \<open>The column order of the hourly series\<close>

lemma is_num_norm_col: "is_num (norm_col df col) = is_num col"
  by (cases col) (simp_all add: norm_col_def)

lemma num_first_idem: "num_first (num_first cs) = num_first cs"
  by (induction cs) (auto simp: num_first_def)

lemma num_first_map:
  "(\<And>col. is_num (g col) = is_num col) \<Longrightarrow>
   num_first (map (\<lambda>(c, col). (c, g col)) cs) = map (\<lambda>(c, col). (c, g col)) (num_first cs)"
  by (simp add: num_first_def filter_map_snd)

lemma normalize_output_num_first:
  assumes "normalize_frame target df = Inr h"
  shows "num_first (cols h) = cols h"
  by (simp add: normalize_index(3) [OF assms] num_first_map is_num_norm_col num_first_idem)

section \<open>Idempotence\<close>

lemma length_ffill [simp]: "length (ffill xs) = length xs"
  by (simp add: ffill_def)

lemma length_bfill [simp]: "length (bfill xs) = length xs"
  by (simp add: bfill_def)

lemma col_len_norm_col: "col_len (norm_col df col) = length (norm_idx df)"
  by (cases col) (simp_all add: norm_col_def length_interpolate)

lemma normalize_index_shape:
  assumes "normalize_frame target df = Inr h"
  shows "index h \<noteq> []" "hour_ns dvd hd (index h)" "contiguous (index h)"
proof -
  have ne: "norm_keys df \<noteq> []" and idx: "index h = norm_idx df"
    using normalize_index [OF assms] by simp_all
  note b = norm_keys_bounds [OF ne]
  show "index h \<noteq> []"
    by (simp add: idx norm_idx_def date_range_nonempty b(3))
  have "hd (index h) = hd (norm_keys df)"
    by (simp add: idx norm_idx_def hd_date_range b(3))
  then show "hour_ns dvd hd (index h)"
    using norm_keys_dvd [OF hd_in_set [OF ne]] by simp
  show "contiguous (index h)"
    by (simp add: idx norm_idx_def contiguous_date_range)
qed

lemma normalize_col_lengths:
  assumes "normalize_frame target df = Inr h"
  shows "list_all (\<lambda>(c, col). col_len col = length (index h)) (cols h)"
  using normalize_index(2,3) [OF assms]
  by (auto simp: list_all_iff col_len_norm_col)

lemma normalize_has_target:
  assumes "normalize_frame target df = Inr h"
  shows "target \<in> fst ` set (cols h)"
  using normalize_index(3,4) [OF assms]
  by (simp add: fst_set_map_snd fst_set_num_first del: set_map)

text \<open>
  C7: an hourly series that the pipeline has returned and that has no missing cell is
  hourly aligned, without gap and without duplicate, and the pipeline applied to it
  returns it unchanged.
\<close>

theorem normalize_idempotent:
  assumes "normalize_frame target df = Inr h" and "all_cols col_complete (cols h)"
  shows "hour_ns dvd hd (index h) \<and> contiguous (index h) \<and> distinct (index h) \<and>
    normalize_frame target (as_raw h) = Inr h"
proof -
  note s = normalize_index_shape [OF assms(1)]
  have k: "list_all (\<lambda>(c, col). col_complete col) (cols h)"
    using assms(2) by (simp add: all_cols_def)
  have "normalize_frame target (as_raw h) = Inr (h\<lparr>cols := num_first (cols h)\<rparr>)"
    using s(3,1,2) normalize_col_lengths [OF assms(1)] k normalize_has_target [OF assms(1)]
    by (rule normalize_as_raw)
  then have "normalize_frame target (as_raw h) = Inr h"
    by (simp add: normalize_output_num_first [OF assms(1)])
  then show ?thesis
    using s contiguous_sorted_distinct(2) [OF s(3)] by simp
qed

lemma hourly_example_complete: "all_cols col_complete (cols hourly_example)"
  by (simp add: all_cols_def hourly_example_def)

theorem normalize_idempotent_witness:
  "normalize_frame ''PM2.5'' raw_example = Inr hourly_example \<and>
   all_cols col_complete (cols hourly_example) \<and>
   normalize_frame ''PM2.5'' (as_raw hourly_example) = Inr hourly_example"
  using normalize_idempotent [OF normalize_raw_example hourly_example_complete]
    normalize_raw_example hourly_example_complete
  by simp

end
